theory Spec2Isabelle
  imports Main "HOL-Library.Word" "HOL-Library.AList" "HOL-Library.Multiset"
begin

section \<open>Data model of the broker manager\<close>

type_synonym int32 = "32 word"

text \<open>
  Modelled from the spec: the \<^verbatim>\<open>broker\<close> struct is declared outside
  \<^verbatim>\<open>broker_manager.go\<close>; the manager reads only its \<^verbatim>\<open>id\<close>. The spec
  gives a broker descriptor the attributes id, host and port.
\<close>

record broker =
  bid :: int32
  host :: string
  port :: int32

text \<open>
  Modelled from the spec: the Kafka error codes are declared outside this file. The two
  codes the manager names are constructors of their own; every other code is told apart
  by its number.
\<close>

datatype KError = NO_ERROR | UNKNOWN_TOPIC_OR_PARTITION | OTHER_KERROR nat

text \<open>
  Go's \<^verbatim>\<open>error\<close> interface, with the dynamic types the manager switches on:
  \<^verbatim>\<open>EncodingError\<close>, a \<^verbatim>\<open>KError\<close> code, \<^verbatim>\<open>OutOfBrokers\<close>, and any other
  error value (the \<^verbatim>\<open>default\<close> branch of the type switches). A \<^verbatim>\<open>nil\<close> error is
  \<open>None\<close> of \<open>error option\<close>.
\<close>

datatype error = EncodingError string | KErr KError | OutOfBrokers | OtherError string

record partitionMetadata =
  p_err :: KError
  p_id :: int32
  leader :: int32
  replicas :: "int32 list"
  isr :: "int32 list"

record topicMetadata =
  t_err :: KError
  name :: string
  t_partitions :: "partitionMetadata list"

record metadata =
  m_brokers :: "broker list"
  m_topics :: "topicMetadata list"

text \<open>
  The two Go maps. \<^verbatim>\<open>brokers\<close> is iterated by \<^verbatim>\<open>getDefault\<close> and the inner
  partition maps by \<^verbatim>\<open>partitionsForTopic\<close>, so both are association lists (lookup
  \<open>map_of\<close>, store \<open>AList.update\<close>, \<^verbatim>\<open>delete\<close> \<open>AList.delete\<close>); the outer
  \<^verbatim>\<open>partitions\<close> map is only ever indexed. A missing key reads as Go's \<^verbatim>\<open>nil\<close>,
  here \<open>None\<close>. The reader/writer lock is left out: the model is one caller at a time.
\<close>

record brokerManager =
  defaultBroker :: "broker option"
  brokers :: "(int32 \<times> broker) list"
  partitions :: "string \<rightharpoonup> (int32 \<times> partitionMetadata) list"

section \<open>The world outside the manager\<close>

text \<open>
  \<^verbatim>\<open>b.sendAndReceive(clientId, req, res)\<close> is the only I/O. For a fixed request it
  is a function of how many sends the run has made so far, of the broker it is sent to
  and of the decoder \<^verbatim>\<open>res\<close> passed in; it yields \<^verbatim>\<open>gotResponse\<close>, the error and
  what \<^verbatim>\<open>res\<close> holds afterwards.
\<close>

type_synonym 'a exchange = "nat \<Rightarrow> broker \<Rightarrow> 'a \<Rightarrow> bool \<times> error option \<times> 'a"

datatype sendKind = MetadataSend "string list" | RequestSend

text \<open>
  The world records every send (the broker and which kind of request) and the topic list
  of every call of \<^verbatim>\<open>refreshTopics\<close>, and counts the map iterations of
  \<^verbatim>\<open>getDefault\<close> and \<^verbatim>\<open>partitionsForTopic\<close>: Go iterates a map in an order of its
  own choosing, which may differ from one iteration to the next. The \<open>n\<close>-th
  iteration, when it is one of \<^verbatim>\<open>getDefault\<close>, which reads the first entry only,
  starts at the entry \<open>mapOrder env n\<close> (modulo the size of the map); when it is one
  of \<^verbatim>\<open>partitionsForTopic\<close>, which runs over the whole map, it takes the entries in
  the order that the choices \<open>rangeOrder env n\<close> fix.
\<close>

record world =
  sent :: "(broker \<times> sendKind) list"
  picks :: nat
  refreshes :: "string list list"

record ('q, 'r) env =
  metadataNet :: "string list \<Rightarrow> metadata exchange"
  requestNet :: "'q \<Rightarrow> 'r exchange"
  staleTopics :: "'r \<Rightarrow> string list"
  mapOrder :: "nat \<Rightarrow> nat"
  rangeOrder :: "nat \<Rightarrow> nat list"

definition sendAndReceive ::
  "'a exchange \<Rightarrow> sendKind \<Rightarrow> broker \<Rightarrow> 'a \<Rightarrow> world \<Rightarrow> (bool \<times> error option \<times> 'a) \<times> world" where
  "sendAndReceive x k b res w = (x (length (sent w)) b res, w\<lparr>sent := sent w @ [(b, k)]\<rparr>)"

section \<open>The manager's operations\<close>

definition terminateBroker :: "int32 \<Rightarrow> brokerManager \<Rightarrow> brokerManager" where
  "terminateBroker i bm = bm\<lparr>brokers := AList.delete i (brokers bm)\<rparr>"

definition getLeader :: "brokerManager \<Rightarrow> string \<Rightarrow> int32 \<Rightarrow> broker option" where
  "getLeader bm topic partition_id =
     (case partitions bm topic of
        None \<Rightarrow> None
      | Some id_map \<Rightarrow>
          (case map_of id_map partition_id of
             None \<Rightarrow> None
           | Some p \<Rightarrow> map_of (brokers bm) (leader p)))"

text \<open>
  \<^verbatim>\<open>getDefault\<close>: when the slot is empty, the first key of one iteration over
  \<^verbatim>\<open>brokers\<close> is looked up and stored in the slot; an empty map leaves it empty.
\<close>

definition getDefault ::
  "(nat \<Rightarrow> nat) \<Rightarrow> brokerManager \<Rightarrow> world \<Rightarrow> broker option \<times> brokerManager \<times> world" where
  "getDefault order bm w =
     (if defaultBroker bm = None then
        (if brokers bm = [] then (None, bm, w)
         else
           (let i = fst (brokers bm ! (order (picks w) mod length (brokers bm)));
                bm' = bm\<lparr>defaultBroker := map_of (brokers bm) i\<rparr>
            in (defaultBroker bm', bm', w\<lparr>picks := Suc (picks w)\<rparr>)))
      else (defaultBroker bm, bm, w))"

text \<open>
  \<^verbatim>\<open>sendToAny\<close>: the loop runs until a send is definitive or no default broker is
  left. Nothing in the loop itself bounds it, so not returning is the value \<open>None\<close>.
\<close>

partial_function (option) sendToAny ::
  "(nat \<Rightarrow> nat) \<Rightarrow> 'a exchange \<Rightarrow> sendKind \<Rightarrow> 'a \<Rightarrow> brokerManager \<Rightarrow> world
     \<Rightarrow> ((bool \<times> error option \<times> 'a) \<times> brokerManager \<times> world) option" where
  "sendToAny order x k res bm w =
     (case getDefault order bm w of
        (None, bm1, w1) \<Rightarrow> Some ((False, Some OutOfBrokers, res), bm1, w1)
      | (Some b, bm1, w1) \<Rightarrow>
          (case sendAndReceive x k b res w1 of
             ((gotResponse, err, res'), w2) \<Rightarrow>
               (case err of
                  None \<Rightarrow> Some ((gotResponse, err, res'), bm1, w2)
                | Some (EncodingError s) \<Rightarrow> Some ((gotResponse, err, res'), bm1, w2)
                | Some e \<Rightarrow>
                    sendToAny order x k res'
                      (terminateBroker (bid b) (bm1\<lparr>defaultBroker := None\<rparr>)) w2)))"

text \<open>
  \<^verbatim>\<open>refreshTopics\<close>, the loop over \<^verbatim>\<open>response.brokers\<close>: each broker is stored
  under its own id.
\<close>

fun refreshTopics_brokers :: "broker list \<Rightarrow> (int32 \<times> broker) list \<Rightarrow> (int32 \<times> broker) list" where
  "refreshTopics_brokers [] bs = bs"
| "refreshTopics_brokers (b # rest) bs = refreshTopics_brokers rest (AList.update (bid b) b bs)"

text \<open>
  The loop over one topic's partitions fills the inner map made for the topic, which is
  already stored in \<^verbatim>\<open>partitions\<close>: at a partition error it returns with what it has
  filled so far.
\<close>

fun refreshTopics_partitions ::
  "partitionMetadata list \<Rightarrow> (int32 \<times> partitionMetadata) list
     \<Rightarrow> error option \<times> (int32 \<times> partitionMetadata) list" where
  "refreshTopics_partitions [] id_map = (None, id_map)"
| "refreshTopics_partitions (p # rest) id_map =
     (if p_err p \<noteq> NO_ERROR then (Some (KErr (p_err p)), id_map)
      else refreshTopics_partitions rest (AList.update (p_id p) p id_map))"

fun refreshTopics_topics ::
  "topicMetadata list \<Rightarrow> (string \<rightharpoonup> (int32 \<times> partitionMetadata) list)
     \<Rightarrow> error option \<times> (string \<rightharpoonup> (int32 \<times> partitionMetadata) list)" where
  "refreshTopics_topics [] ps = (None, ps)"
| "refreshTopics_topics (t # rest) ps =
     (if t_err t \<noteq> NO_ERROR then (Some (KErr (t_err t)), ps)
      else
        (case refreshTopics_partitions (t_partitions t) [] of
           (Some e, id_map) \<Rightarrow> (Some e, ps(name t \<mapsto> id_map))
         | (None, id_map) \<Rightarrow> refreshTopics_topics rest (ps(name t \<mapsto> id_map))))"

definition new_metadata :: metadata where
  "new_metadata = \<lparr>m_brokers = [], m_topics = []\<rparr>"

definition refreshTopics ::
  "('q, 'r) env \<Rightarrow> string list \<Rightarrow> brokerManager \<Rightarrow> world
     \<Rightarrow> (error option \<times> brokerManager \<times> world) option" where
  "refreshTopics env topics bm w =
     (case sendToAny (mapOrder env) (metadataNet env topics) (MetadataSend topics)
             new_metadata bm (w\<lparr>refreshes := refreshes w @ [topics]\<rparr>) of
        None \<Rightarrow> None
      | Some ((gotResponse, Some e, response), bm1, w1) \<Rightarrow> Some (Some e, bm1, w1)
      | Some ((gotResponse, None, response), bm1, w1) \<Rightarrow>
          (case refreshTopics_topics (m_topics response) (partitions bm1) of
             (e, ps) \<Rightarrow>
               Some (e, bm1\<lparr>brokers := refreshTopics_brokers (m_brokers response) (brokers bm1),
                             partitions := ps\<rparr>, w1)))"

definition refreshTopic ::
  "('q, 'r) env \<Rightarrow> string \<Rightarrow> brokerManager \<Rightarrow> world
     \<Rightarrow> (error option \<times> brokerManager \<times> world) option" where
  "refreshTopic env topic bm w = refreshTopics env [topic] bm w"

definition getValidLeader ::
  "('q, 'r) env \<Rightarrow> string \<Rightarrow> int32 \<Rightarrow> brokerManager \<Rightarrow> world
     \<Rightarrow> ((error + broker) \<times> brokerManager \<times> world) option" where
  "getValidLeader env topic partition_id bm w =
     (case getLeader bm topic partition_id of
        Some b \<Rightarrow> Some (Inr b, bm, w)
      | None \<Rightarrow>
          (case refreshTopic env topic bm w of
             None \<Rightarrow> None
           | Some (Some e, bm1, w1) \<Rightarrow> Some (Inl e, bm1, w1)
           | Some (None, bm1, w1) \<Rightarrow>
               (case getLeader bm1 topic partition_id of
                  None \<Rightarrow> Some (Inl (KErr UNKNOWN_TOPIC_OR_PARTITION), bm1, w1)
                | Some b \<Rightarrow> Some (Inr b, bm1, w1))))"

text \<open>
  One iteration over a map whose entries are \<open>xs\<close>, in an order that the choices
  \<open>cs\<close> fix: every entry is put at the place that its choice names among the entries
  after it (a missing choice is 0). Every order of the entries comes from some choices.
\<close>

fun range_order :: "nat list \<Rightarrow> 'a list \<Rightarrow> 'a list" where
  "range_order cs [] = []"
| "range_order cs (x # xs) =
     (let ys = range_order (drop 1 cs) xs;
          i = (case cs of [] \<Rightarrow> 0 | c # _ \<Rightarrow> c) mod Suc (length ys)
      in take i ys @ x # drop i ys)"

text \<open>
  The loop that ends \<^verbatim>\<open>partitionsForTopic\<close>: the keys of the topic's inner map, in
  the order of one iteration over it.
\<close>

definition partitionsForTopic_ids ::
  "('q, 'r) env \<Rightarrow> (int32 \<times> partitionMetadata) list \<Rightarrow> world \<Rightarrow> int32 list \<times> world" where
  "partitionsForTopic_ids env id_map w =
     (range_order (rangeOrder env (picks w)) (map fst id_map), w\<lparr>picks := Suc (picks w)\<rparr>)"

definition partitionsForTopic ::
  "('q, 'r) env \<Rightarrow> string \<Rightarrow> brokerManager \<Rightarrow> world
     \<Rightarrow> ((error + int32 list) \<times> brokerManager \<times> world) option" where
  "partitionsForTopic env topic bm w =
     (case partitions bm topic of
        Some id_map \<Rightarrow>
          (case partitionsForTopic_ids env id_map w of
             (ids, w') \<Rightarrow> Some (Inr ids, bm, w'))
      | None \<Rightarrow>
          (case refreshTopic env topic bm w of
             None \<Rightarrow> None
           | Some (Some e, bm1, w1) \<Rightarrow> Some (Inl e, bm1, w1)
           | Some (None, bm1, w1) \<Rightarrow>
               (case partitions bm1 topic of
                  None \<Rightarrow> Some (Inl (KErr UNKNOWN_TOPIC_OR_PARTITION), bm1, w1)
                | Some id_map \<Rightarrow>
                    (case partitionsForTopic_ids env id_map w1 of
                       (ids, w') \<Rightarrow> Some (Inr ids, bm1, w')))))"

text \<open>
  \<^verbatim>\<open>sendToPartition\<close>. The part after the type switch (``then do the whole thing
  again'') is \<open>sendToPartition_retry\<close>; the two branches of the switch that do not
  return fall through to it. The decoder \<^verbatim>\<open>res\<close> is the caller's object, so what it
  holds at the end is returned with the result.
\<close>

definition sendToPartition_retry ::
  "('q, 'r) env \<Rightarrow> string \<Rightarrow> int32 \<Rightarrow> 'q \<Rightarrow> 'r \<Rightarrow> brokerManager \<Rightarrow> world
     \<Rightarrow> ((bool \<times> error option \<times> 'r) \<times> brokerManager \<times> world) option" where
  "sendToPartition_retry env topic partition_id req res bm w =
     (case getValidLeader env topic partition_id bm w of
        None \<Rightarrow> None
      | Some (Inl e, bm1, w1) \<Rightarrow> Some ((False, Some e, res), bm1, w1)
      | Some (Inr b, bm1, w1) \<Rightarrow>
          (case sendAndReceive (requestNet env req) RequestSend b res w1 of
             (r, w2) \<Rightarrow> Some (r, bm1, w2)))"

definition sendToPartition ::
  "('q, 'r) env \<Rightarrow> string \<Rightarrow> int32 \<Rightarrow> 'q \<Rightarrow> 'r \<Rightarrow> brokerManager \<Rightarrow> world
     \<Rightarrow> ((bool \<times> error option \<times> 'r) \<times> brokerManager \<times> world) option" where
  "sendToPartition env topic partition_id req res bm w =
     (case getValidLeader env topic partition_id bm w of
        None \<Rightarrow> None
      | Some (Inl e, bm1, w1) \<Rightarrow> Some ((False, Some e, res), bm1, w1)
      | Some (Inr b, bm1, w1) \<Rightarrow>
          (case sendAndReceive (requestNet env req) RequestSend b res w1 of
             ((gotResponse, err, res1), w2) \<Rightarrow>
               (case err of
                  Some (EncodingError s) \<Rightarrow> Some ((False, err, res1), bm1, w2)
                | None \<Rightarrow>
                    (if gotResponse then
                       (let stale = staleTopics env res1 in
                        if length stale = 0 then Some ((True, None, res1), bm1, w2)
                        else
                          (case refreshTopics env stale bm1 w2 of
                             None \<Rightarrow> None
                           | Some (Some e, bm3, w3) \<Rightarrow> Some ((True, Some e, res1), bm3, w3)
                           | Some (None, bm3, w3) \<Rightarrow>
                               sendToPartition_retry env topic partition_id req res1 bm3 w3))
                     else Some ((False, None, res1), bm1, w2))
                | Some e \<Rightarrow>
                    sendToPartition_retry env topic partition_id req res1
                      (terminateBroker (bid b) bm1) w2)))"

text \<open>
  \<^verbatim>\<open>newBrokerManager\<close>. The constructor \<^verbatim>\<open>newBroker(host, port)\<close> is declared
  outside this file, so its result, a broker or an error, is given. The default broker is
  set, both maps are made empty, and all cluster metadata is fetched with an empty topic
  list.
\<close>

definition newBrokerManager ::
  "('q, 'r) env \<Rightarrow> error + broker \<Rightarrow> world \<Rightarrow> ((error + brokerManager) \<times> world) option" where
  "newBrokerManager env made w =
     (case made of
        Inl e \<Rightarrow> Some (Inl e, w)
      | Inr b \<Rightarrow>
          (case refreshTopics env []
                  \<lparr>defaultBroker = Some b, brokers = [], partitions = Map.empty\<rparr> w of
             None \<Rightarrow> None
           | Some (Some e, bm, w1) \<Rightarrow> Some (Inl e, w1)
           | Some (None, bm, w1) \<Rightarrow> Some (Inr bm, w1)))"

section \<open>Notions the statements use\<close>

text \<open>
  The invariant of \<^verbatim>\<open>brokers\<close>: every broker is stored under its own id. The
  manager that \<^verbatim>\<open>newBrokerManager\<close> returns has it, and \<^verbatim>\<open>refreshTopics\<close> and
  \<^verbatim>\<open>terminateBroker\<close>, the only writers of the map, keep it. Without it the loop of
  \<^verbatim>\<open>sendToAny\<close> need not end: a broker stored under another id than its own is never
  removed by \<^verbatim>\<open>terminateBroker(b.id)\<close> and is picked again and again.
\<close>

definition brokers_keyed :: "brokerManager \<Rightarrow> bool" where
  "brokers_keyed bm = list_all (\<lambda>(i, b). bid b = i) (brokers bm)"

text \<open>The brokers the manager knows: the default slot and the values of \<^verbatim>\<open>brokers\<close>.\<close>

definition known :: "brokerManager \<Rightarrow> broker set" where
  "known bm = set_option (defaultBroker bm) \<union> snd ` set (brokers bm)"

text \<open>The \<^verbatim>\<open>default\<close> branch of the type switches: neither \<^verbatim>\<open>nil\<close> nor an encoding error.\<close>

fun broker_error :: "error option \<Rightarrow> bool" where
  "broker_error None = False"
| "broker_error (Some (EncodingError s)) = False"
| "broker_error (Some e) = True"

definition eviction_measure :: "brokerManager \<Rightarrow> nat" where
  "eviction_measure bm =
     2 * length (brokers bm) + (if defaultBroker bm = None then 0 else 1)"

text \<open>What one call of \<^verbatim>\<open>sendToAny\<close> leaves behind.\<close>

definition sendToAny_post ::
  "'a exchange \<Rightarrow> sendKind \<Rightarrow> brokerManager \<Rightarrow> world
     \<Rightarrow> (bool \<times> error option \<times> 'a) \<Rightarrow> brokerManager \<Rightarrow> world \<Rightarrow> bool" where
  "sendToAny_post x k bm w r bm' w' \<longleftrightarrow>
     brokers_keyed bm' \<and> partitions bm' = partitions bm \<and>
     set (brokers bm') \<subseteq> set (brokers bm) \<and> refreshes w' = refreshes w \<and>
     (\<exists>ext. sent w' = sent w @ ext \<and> snd ` set ext \<subseteq> {k} \<and> fst ` set ext \<subseteq> known bm \<and>
            distinct (map (bid \<circ> fst) ext)) \<and>
     (broker_error (fst (snd r)) \<longrightarrow>
        fst r = False \<and> fst (snd r) = Some OutOfBrokers \<and> brokers bm' = [] \<and>
        defaultBroker bm' = None) \<and>
     ((\<forall>b \<in> known bm. \<forall>t res0. broker_error (fst (snd (x t b res0)))) \<longrightarrow>
        broker_error (fst (snd r)))"

text \<open>The number of sends of a caller's request, as opposed to metadata requests.\<close>

definition request_sends :: "world \<Rightarrow> nat" where
  "request_sends w = length (filter (\<lambda>e. snd e = RequestSend) (sent w))"

text \<open>
  The call of \<^verbatim>\<open>sendToAny\<close> that \<^verbatim>\<open>refreshTopics\<close> makes: its result carries the
  metadata response that the refresh then applies to the cache.
\<close>

definition metadata_reply ::
  "('q, 'r) env \<Rightarrow> string list \<Rightarrow> brokerManager \<Rightarrow> world
     \<Rightarrow> ((bool \<times> error option \<times> metadata) \<times> brokerManager \<times> world) option" where
  "metadata_reply env topics bm w =
     sendToAny (mapOrder env) (metadataNet env topics) (MetadataSend topics) new_metadata bm
       (w\<lparr>refreshes := refreshes w @ [topics]\<rparr>)"

text \<open>The last element of a list that has the key \<open>k\<close>: the one a later store leaves.\<close>

definition latest :: "('a \<Rightarrow> 'k) \<Rightarrow> 'k \<Rightarrow> 'a list \<Rightarrow> 'a option" where
  "latest key k xs = find (\<lambda>x. key x = k) (rev xs)"

text \<open>
  The error codes of a metadata response in response order: each topic's code, followed
  by the codes of its partitions. The first code that is not \<open>NO_ERROR\<close> is the first
  error of the response.
\<close>

definition error_codes :: "topicMetadata list \<Rightarrow> KError list" where
  "error_codes ts = concat (map (\<lambda>t. t_err t # map p_err (t_partitions t)) ts)"

definition first_error :: "metadata \<Rightarrow> KError option" where
  "first_error m = find (\<lambda>c. c \<noteq> NO_ERROR) (error_codes (m_topics m))"

text \<open>
  What a response holds before its first error: the topics before it, and of a topic that
  one of its partitions stops, the partitions before that one.
\<close>

definition no_error :: "partitionMetadata \<Rightarrow> bool" where
  "no_error p = (p_err p = NO_ERROR)"

fun before_error :: "topicMetadata list \<Rightarrow> topicMetadata list" where
  "before_error [] = []"
| "before_error (t # ts) =
     (if t_err t \<noteq> NO_ERROR then []
      else if list_all no_error (t_partitions t) then t # before_error ts
      else [t\<lparr>t_partitions := takeWhile no_error (t_partitions t)\<rparr>])"

section \<open>Concrete scenarios\<close>

definition brokerA :: broker where
  "brokerA = \<lparr>bid = 1, host = ''a'', port = 9092\<rparr>"

definition brokerB :: broker where
  "brokerB = \<lparr>bid = 2, host = ''b'', port = 9092\<rparr>"

definition bootstrap :: broker where
  "bootstrap = \<lparr>bid = 0, host = ''seed'', port = 9092\<rparr>"

definition w0 :: world where
  "w0 = \<lparr>sent = [], picks = 0, refreshes = []\<rparr>"

text \<open>Total outage: every send fails with a transport error.\<close>

definition down :: "'a exchange" where
  "down t b res = (False, Some (OtherError ''connection refused''), res)"

definition bm_outage :: brokerManager where
  "bm_outage = \<lparr>defaultBroker = Some bootstrap, brokers = [(1, brokerA), (2, brokerB)],
     partitions = Map.empty\<rparr>"

text \<open>
  A warm cache: topic \<open>t\<close> has partition 0 led by broker 2 and partition 1 led by
  broker 1.
\<close>

definition part0 :: partitionMetadata where
  "part0 = \<lparr>p_err = NO_ERROR, p_id = 0, leader = 2, replicas = [1, 2], isr = [2]\<rparr>"

definition part1 :: partitionMetadata where
  "part1 = \<lparr>p_err = NO_ERROR, p_id = 1, leader = 1, replicas = [1, 2], isr = [1]\<rparr>"

definition bm_cached :: brokerManager where
  "bm_cached = \<lparr>defaultBroker = Some brokerA, brokers = [(1, brokerA), (2, brokerB)],
     partitions = [''t'' \<mapsto> [(0, part0), (1, part1)]]\<rparr>"

definition md_t :: metadata where
  "md_t = \<lparr>m_brokers = [brokerA, brokerB],
     m_topics = [\<lparr>t_err = NO_ERROR, name = ''t'', t_partitions = [part0, part1]\<rparr>]\<rparr>"

text \<open>
  In the scenarios a caller's response is the list of its stale topics, and the request
  carries nothing. Here every response reports \<open>t\<close> stale and every metadata
  request is answered with \<open>md_t\<close>.
\<close>

definition env_stale :: "(unit, string list) env" where
  "env_stale = \<lparr>metadataNet = (\<lambda>ts t b r. (True, None, md_t)),
     requestNet = (\<lambda>q t b r. (True, None, [''t''])),
     staleTopics = (\<lambda>r. r), mapOrder = (\<lambda>n. 0),
     rangeOrder = (\<lambda>n. [])\<rparr>"

text \<open>Every response is up to date.\<close>

definition env_fresh :: "(unit, string list) env" where
  "env_fresh = \<lparr>metadataNet = (\<lambda>ts t b r. (True, None, md_t)),
     requestNet = (\<lambda>q t b r. (True, None, [])),
     staleTopics = (\<lambda>r. r), mapOrder = (\<lambda>n. 0),
     rangeOrder = (\<lambda>n. [])\<rparr>"

text \<open>The request cannot be serialized.\<close>

definition env_encoding :: "(unit, string list) env" where
  "env_encoding = \<lparr>metadataNet = (\<lambda>ts t b r. (True, None, md_t)),
     requestNet = (\<lambda>q t b r. (False, Some (EncodingError ''message too large''), r)),
     staleTopics = (\<lambda>r. r), mapOrder = (\<lambda>n. 0),
     rangeOrder = (\<lambda>n. [])\<rparr>"

text \<open>
  Every response reports \<open>t\<close> stale, and the cluster answers the metadata request
  with a topic-level error code for \<open>t\<close>.
\<close>

definition md_t_error :: metadata where
  "md_t_error = \<lparr>m_brokers = [brokerA, brokerB],
     m_topics = [\<lparr>t_err = OTHER_KERROR 5, name = ''t'', t_partitions = []\<rparr>]\<rparr>"

definition env_stale_error :: "(unit, string list) env" where
  "env_stale_error = \<lparr>metadataNet = (\<lambda>ts t b r. (True, None, md_t_error)),
     requestNet = (\<lambda>q t b r. (True, None, [''t''])),
     staleTopics = (\<lambda>r. r), mapOrder = (\<lambda>n. 0),
     rangeOrder = (\<lambda>n. [])\<rparr>"

text \<open>
  A metadata response that breaks off inside topic \<open>t\<close>: partition 1 carries an error
  code. Topic \<open>s\<close> before it is clean, topic \<open>u\<close> after it is never reached.
\<close>

definition brokerC :: broker where
  "brokerC = \<lparr>bid = 3, host = ''c'', port = 9092\<rparr>"

definition part1_bad :: partitionMetadata where
  "part1_bad = \<lparr>p_err = OTHER_KERROR 5, p_id = 1, leader = 3, replicas = [1, 3], isr = []\<rparr>"

definition topic_s :: topicMetadata where
  "topic_s = \<lparr>t_err = NO_ERROR, name = ''s'', t_partitions = [part1]\<rparr>"

definition topic_t_bad :: topicMetadata where
  "topic_t_bad = \<lparr>t_err = NO_ERROR, name = ''t'', t_partitions = [part0, part1_bad]\<rparr>"

definition topic_u :: topicMetadata where
  "topic_u = \<lparr>t_err = NO_ERROR, name = ''u'', t_partitions = [part0]\<rparr>"

definition md_partial :: metadata where
  "md_partial = \<lparr>m_brokers = [brokerC], m_topics = [topic_s, topic_t_bad, topic_u]\<rparr>"

definition env_partial :: "(unit, string list) env" where
  "env_partial = \<lparr>metadataNet = (\<lambda>ts t b r. (True, None, md_partial)),
     requestNet = (\<lambda>q t b r. (True, None, [])),
     staleTopics = (\<lambda>r. r), mapOrder = (\<lambda>n. 0),
     rangeOrder = (\<lambda>n. [])\<rparr>"

definition w_refreshed :: world where
  "w_refreshed = \<lparr>sent = [(brokerA, MetadataSend [])], picks = 0, refreshes = [[]]\<rparr>"

text \<open>
  A manager just constructed: only the bootstrap broker in the default slot. And a
  metadata response whose only partition names broker 7 as its leader, while its broker
  list holds broker 1 only.
\<close>

definition bm_boot :: brokerManager where
  "bm_boot = \<lparr>defaultBroker = Some bootstrap, brokers = [], partitions = Map.empty\<rparr>"

definition part_orphan :: partitionMetadata where
  "part_orphan = \<lparr>p_err = NO_ERROR, p_id = 0, leader = 7, replicas = [7], isr = [7]\<rparr>"

definition md_orphan :: metadata where
  "md_orphan = \<lparr>m_brokers = [brokerA],
     m_topics = [\<lparr>t_err = NO_ERROR, name = ''t'', t_partitions = [part_orphan]\<rparr>]\<rparr>"

definition env_orphan :: "(unit, string list) env" where
  "env_orphan = \<lparr>metadataNet = (\<lambda>ts t b r. (True, None, md_orphan)),
     requestNet = (\<lambda>q t b r. (True, None, [])),
     staleTopics = (\<lambda>r. r), mapOrder = (\<lambda>n. 0),
     rangeOrder = (\<lambda>n. [])\<rparr>"

text \<open>
  A manager that breaks the invariant: a broker with id 2 is stored under the key 1.
\<close>

definition brokerX :: broker where
  "brokerX = \<lparr>bid = 2, host = ''x'', port = 9092\<rparr>"

definition bm_miskeyed :: brokerManager where
  "bm_miskeyed = \<lparr>defaultBroker = None, brokers = [(1, brokerX)], partitions = Map.empty\<rparr>"

text \<open>
  As \<open>env_fresh\<close>, with a map iteration that takes the second of two entries first.
\<close>

definition env_reversed :: "(unit, string list) env" where
  "env_reversed = \<lparr>metadataNet = (\<lambda>ts t b r. (True, None, md_t)),
     requestNet = (\<lambda>q t b r. (True, None, [])),
     staleTopics = (\<lambda>r. r), mapOrder = (\<lambda>n. 0),
     rangeOrder = (\<lambda>n. [1])\<rparr>"

section \<open>The loop of \<^verbatim>\<open>sendToAny\<close> and what the operations preserve\<close>

lemma sendToAny_out:
  "getDefault order bm w = (None, bm1, w1) \<Longrightarrow>
   sendToAny order x k res bm w = Some ((False, Some OutOfBrokers, res), bm1, w1)"
  by (subst sendToAny.simps) simp

lemma sendToAny_definitive:
  "getDefault order bm w = (Some b, bm1, w1) \<Longrightarrow> x (length (sent w1)) b res = (g, err, res') \<Longrightarrow>
   \<not> broker_error err \<Longrightarrow>
   sendToAny order x k res bm w = Some ((g, err, res'), bm1, w1\<lparr>sent := sent w1 @ [(b, k)]\<rparr>)"
  by (subst sendToAny.simps, cases err rule: broker_error.cases)
     (simp_all add: sendAndReceive_def)

lemma sendToAny_discard:
  "getDefault order bm w = (Some b, bm1, w1) \<Longrightarrow> x (length (sent w1)) b res = (g, err, res') \<Longrightarrow>
   broker_error err \<Longrightarrow>
   sendToAny order x k res bm w =
     sendToAny order x k res' (terminateBroker (bid b) (bm1\<lparr>defaultBroker := None\<rparr>))
       (w1\<lparr>sent := sent w1 @ [(b, k)]\<rparr>)"
  by (subst sendToAny.simps, cases err rule: broker_error.cases)
     (simp_all add: sendAndReceive_def)

lemma picked_key:
  assumes "bs \<noteq> []"
  shows "\<exists>b. map_of bs (fst (bs ! (n mod length bs))) = Some b \<and>
             (fst (bs ! (n mod length bs)), b) \<in> set bs"
proof -
  from assms have "bs ! (n mod length bs) \<in> set bs" by simp
  then obtain b where "map_of bs (fst (bs ! (n mod length bs))) = Some b"
    by (metis eq_fst_iff weak_map_of_SomeI)
  then show ?thesis by (blast dest: map_of_SomeD)
qed

lemma getDefault_None:
  assumes "getDefault order bm w = (None, bm1, w1)"
  shows "defaultBroker bm = None \<and> brokers bm = [] \<and> bm1 = bm \<and> w1 = w"
proof (cases "defaultBroker bm = None \<and> brokers bm \<noteq> []")
  case True
  with picked_key [of "brokers bm" "order (picks w)"] assms show ?thesis
    by (auto simp: getDefault_def Let_def)
next
  case False
  with assms show ?thesis by (auto simp: getDefault_def split: if_splits)
qed

lemma getDefault_Some:
  assumes "brokers_keyed bm" and "getDefault order bm w = (Some b, bm1, w1)"
  shows "bm1 = bm\<lparr>defaultBroker := Some b\<rparr> \<and> sent w1 = sent w \<and>
         refreshes w1 = refreshes w \<and>
         (defaultBroker bm = Some b \<or> defaultBroker bm = None \<and> (bid b, b) \<in> set (brokers bm))"
proof (cases "defaultBroker bm = None \<and> brokers bm \<noteq> []")
  case True
  from True picked_key [of "brokers bm" "order (picks w)"] obtain b' where
    b': "map_of (brokers bm) (fst (brokers bm ! (order (picks w) mod length (brokers bm)))) = Some b'"
        "(fst (brokers bm ! (order (picks w) mod length (brokers bm))), b') \<in> set (brokers bm)"
    by blast
  from b'(2) assms(1) have "bid b' = fst (brokers bm ! (order (picks w) mod length (brokers bm)))"
    by (auto simp: brokers_keyed_def list_all_iff)
  with True b' assms(2) show ?thesis by (auto simp: getDefault_def Let_def)
next
  case False
  with assms(2) show ?thesis by (auto simp: getDefault_def split: if_splits)
qed


lemma terminate_keyed:
  "brokers_keyed bm \<Longrightarrow> brokers_keyed (terminateBroker i (bm\<lparr>defaultBroker := d\<rparr>))"
  by (auto simp: brokers_keyed_def terminateBroker_def list_all_iff AList.delete_eq)

lemma terminate_known:
  assumes "brokers_keyed bm" and "b' \<in> known (terminateBroker i (bm\<lparr>defaultBroker := None\<rparr>))"
  shows "b' \<in> known bm \<and> bid b' \<noteq> i"
  using assms
  by (auto simp: brokers_keyed_def known_def terminateBroker_def list_all_iff AList.delete_eq)

lemma terminate_measure:
  assumes "defaultBroker bm = Some b \<or> defaultBroker bm = None \<and> (i, b) \<in> set (brokers bm)"
  shows "eviction_measure (terminateBroker i (bm\<lparr>defaultBroker := None\<rparr>)) < eviction_measure bm"
proof -
  have le: "length (AList.delete i (brokers bm)) \<le> length (brokers bm)"
    by (simp add: AList.delete_eq)
  show ?thesis
  proof (cases "defaultBroker bm")
    case (Some a)
    with le show ?thesis by (simp add: eviction_measure_def terminateBroker_def)
  next
    case None
    with assms have "(i, b) \<in> set (brokers bm)" by simp
    then have "length (AList.delete i (brokers bm)) < length (brokers bm)"
      unfolding AList.delete_eq by (intro length_filter_less [where x = "(i, b)"]) auto
    with None show ?thesis by (simp add: eviction_measure_def terminateBroker_def)
  qed
qed

lemma sendToAny_total:
  "brokers_keyed bm \<Longrightarrow>
   \<exists>r bm' w'. sendToAny order x k res bm w = Some (r, bm', w') \<and> sendToAny_post x k bm w r bm' w'"
proof (induction "eviction_measure bm" arbitrary: bm w res rule: less_induct)
  case less
  obtain ob bm1 w1 where gd: "getDefault order bm w = (ob, bm1, w1)"
    by (cases "getDefault order bm w") auto
  show ?case
  proof (cases ob)
    case None
    with gd getDefault_None [of order bm w bm1 w1]
    have e: "defaultBroker bm = None" "brokers bm = []" "bm1 = bm" "w1 = w" by auto
    from gd None have "sendToAny order x k res bm w = Some ((False, Some OutOfBrokers, res), bm1, w1)"
      by (simp add: sendToAny_out)
    moreover have "sendToAny_post x k bm w (False, Some OutOfBrokers, res) bm1 w1"
      using e less.prems by (simp add: sendToAny_post_def)
    ultimately show ?thesis by blast
  next
    case (Some b)
    with gd getDefault_Some [OF less.prems, of order w b bm1 w1]
    have bm1: "bm1 = bm\<lparr>defaultBroker := Some b\<rparr>" and w1: "sent w1 = sent w"
      and rf: "refreshes w1 = refreshes w"
      and src: "defaultBroker bm = Some b \<or> defaultBroker bm = None \<and> (bid b, b) \<in> set (brokers bm)"
      by auto
    from src have bk: "b \<in> known bm" by (force simp: known_def)
    obtain g err res' where out: "x (length (sent w1)) b res = (g, err, res')"
      by (cases "x (length (sent w1)) b res") auto
    let ?w2 = "w1\<lparr>sent := sent w1 @ [(b, k)]\<rparr>"
    show ?thesis
    proof (cases "broker_error err")
      case False
      from gd Some out False
      have "sendToAny order x k res bm w = Some ((g, err, res'), bm1, ?w2)"
        by (simp add: sendToAny_definitive)
      moreover have "\<not> broker_error (fst (snd (x (length (sent w1)) b res)))"
        using out False by simp
      with bk have "\<not> (\<forall>b \<in> known bm. \<forall>t res0. broker_error (fst (snd (x t b res0))))"
        by blast
      then have "sendToAny_post x k bm w (g, err, res') bm1 ?w2"
        using less.prems bm1 w1 rf bk False
        by (simp add: sendToAny_post_def brokers_keyed_def)
      ultimately show ?thesis by blast
    next
      case True
      let ?bm2 = "terminateBroker (bid b) (bm1\<lparr>defaultBroker := None\<rparr>)"
      have bm2: "?bm2 = terminateBroker (bid b) (bm\<lparr>defaultBroker := None\<rparr>)"
        by (simp add: bm1)
      from gd Some out True
      have step: "sendToAny order x k res bm w = sendToAny order x k res' ?bm2 ?w2"
        by (simp add: sendToAny_discard)
      have keyed2: "brokers_keyed ?bm2"
        unfolding bm2 using less.prems by (rule terminate_keyed)
      have "eviction_measure ?bm2 < eviction_measure bm"
        unfolding bm2 using src by (rule terminate_measure)
      from less.hyps [OF this keyed2, of res' ?w2] obtain r bm' w' where
        run: "sendToAny order x k res' ?bm2 ?w2 = Some (r, bm', w')"
        and post: "sendToAny_post x k ?bm2 ?w2 r bm' w'"
        by blast
      from post obtain ext where ext: "sent w' = sent ?w2 @ ext" "snd ` set ext \<subseteq> {k}"
        "fst ` set ext \<subseteq> known ?bm2" "distinct (map (bid \<circ> fst) ext)"
        unfolding sendToAny_post_def by blast
      have sub: "known ?bm2 \<subseteq> known bm" and fresh: "\<forall>b' \<in> known ?bm2. bid b' \<noteq> bid b"
        unfolding bm2 using terminate_known [OF less.prems] by blast+
      have "sent w' = sent w @ ((b, k) # ext)" using ext(1) w1 by simp
      moreover have "snd ` set ((b, k) # ext) \<subseteq> {k}" using ext(2) by simp
      moreover have "fst ` set ((b, k) # ext) \<subseteq> known bm" using ext(3) sub bk by auto
      moreover have "bid b \<notin> (bid \<circ> fst) ` set ext"
        using ext(3) fresh by force
      then have "distinct (map (bid \<circ> fst) ((b, k) # ext))"
        using ext(4) by simp
      ultimately have log: "\<exists>ext. sent w' = sent w @ ext \<and> snd ` set ext \<subseteq> {k} \<and>
          fst ` set ext \<subseteq> known bm \<and> distinct (map (bid \<circ> fst) ext)"
        by blast
      have "set (brokers ?bm2) \<subseteq> set (brokers bm)"
        by (auto simp: bm1 terminateBroker_def AList.delete_eq)
      with post log sub rf have "sendToAny_post x k bm w r bm' w'"
        unfolding sendToAny_post_def
        by (auto simp: bm1 terminateBroker_def)
      with step run show ?thesis by simp
    qed
  qed
qed

lemma set_update_subset: "set (AList.update k v al) \<subseteq> insert (k, v) (set al)"
  by (induction al) auto

lemma update_keyed:
  "list_all (\<lambda>(i, b). bid b = i) al \<Longrightarrow> list_all (\<lambda>(i, b). bid b = i) (AList.update (bid b) b al)"
  using set_update_subset [of "bid b" b al] by (auto simp: list_all_iff)

lemma refreshTopics_brokers_keyed:
  "list_all (\<lambda>(i, b). bid b = i) al \<Longrightarrow>
   list_all (\<lambda>(i, b). bid b = i) (refreshTopics_brokers bs al)"
  by (induction bs arbitrary: al) (simp_all add: update_keyed)

lemma request_sends_append:
  assumes "sent w' = sent w @ ext" and "snd ` set ext \<subseteq> {MetadataSend ts}"
  shows "request_sends w' = request_sends w"
proof -
  from assms(2) have "filter (\<lambda>e. snd e = RequestSend) ext = []"
    by (auto simp: filter_empty_conv)
  with assms(1) show ?thesis by (simp add: request_sends_def)
qed

lemma refreshTopics_total:
  assumes "brokers_keyed bm"
  shows "\<exists>e bm' w'. refreshTopics env topics bm w = Some (e, bm', w') \<and> brokers_keyed bm' \<and>
           refreshes w' = refreshes w @ [topics] \<and> request_sends w' = request_sends w"
proof -
  let ?w = "w\<lparr>refreshes := refreshes w @ [topics]\<rparr>"
  from sendToAny_total [OF assms, of "mapOrder env" "metadataNet env topics" "MetadataSend topics"
      new_metadata ?w]
  obtain r bm1 w1 where run: "sendToAny (mapOrder env) (metadataNet env topics) (MetadataSend topics)
      new_metadata bm ?w = Some (r, bm1, w1)"
    and post: "sendToAny_post (metadataNet env topics) (MetadataSend topics) bm ?w r bm1 w1"
    by blast
  from post have keyed: "brokers_keyed bm1" and rf: "refreshes w1 = refreshes w @ [topics]"
    by (simp_all add: sendToAny_post_def)
  from post obtain ext where "sent w1 = sent ?w @ ext" "snd ` set ext \<subseteq> {MetadataSend topics}"
    unfolding sendToAny_post_def by blast
  then have "request_sends w1 = request_sends ?w" by (rule request_sends_append)
  then have rs: "request_sends w1 = request_sends w" by (simp add: request_sends_def)
  obtain g err response where r: "r = (g, err, response)" by (cases r) auto
  show ?thesis
  proof (cases err)
    case (Some e)
    with run r keyed rf rs show ?thesis by (simp add: refreshTopics_def)
  next
    case None
    obtain e ps where t: "refreshTopics_topics (m_topics response) (partitions bm1) = (e, ps)"
      by (cases "refreshTopics_topics (m_topics response) (partitions bm1)") auto
    from keyed have "brokers_keyed (bm1\<lparr>brokers := refreshTopics_brokers (m_brokers response) (brokers bm1),
        partitions := ps\<rparr>)"
      by (simp add: brokers_keyed_def refreshTopics_brokers_keyed)
    with None run r t rf rs show ?thesis by (simp add: refreshTopics_def)
  qed
qed

lemma getValidLeader_total:
  assumes "brokers_keyed bm"
  shows "\<exists>r bm' w'. getValidLeader env topic partition_id bm w = Some (r, bm', w') \<and>
           brokers_keyed bm' \<and> request_sends w' = request_sends w \<and>
           (\<forall>b. r = Inr b \<longrightarrow> getLeader bm' topic partition_id = Some b)"
proof (cases "getLeader bm topic partition_id")
  case (Some b)
  with assms show ?thesis by (simp add: getValidLeader_def)
next
  case None
  from refreshTopics_total [OF assms, of env "[topic]" w] obtain e bm1 w1 where
    run: "refreshTopic env topic bm w = Some (e, bm1, w1)" and keyed: "brokers_keyed bm1"
    and rs: "request_sends w1 = request_sends w"
    unfolding refreshTopic_def by blast
  with None show ?thesis
    by (cases e; cases "getLeader bm1 topic partition_id") (simp_all add: getValidLeader_def)
qed

lemma request_sends_send:
  "request_sends (snd (sendAndReceive x RequestSend b res w)) = Suc (request_sends w)"
  by (simp add: sendAndReceive_def request_sends_def)

lemma sendToPartition_retry_total:
  assumes "brokers_keyed bm"
  shows "\<exists>r bm' w'. sendToPartition_retry env topic partition_id req res bm w = Some (r, bm', w') \<and>
           brokers_keyed bm' \<and> request_sends w' \<le> Suc (request_sends w)"
proof -
  from getValidLeader_total [OF assms, of env topic partition_id w] obtain r bm1 w1 where
    run: "getValidLeader env topic partition_id bm w = Some (r, bm1, w1)"
    and keyed: "brokers_keyed bm1" and rs: "request_sends w1 = request_sends w"
    by blast
  show ?thesis
  proof (cases r)
    case (Inl e)
    with run keyed rs show ?thesis by (auto simp: sendToPartition_retry_def)
  next
    case (Inr b)
    with run keyed rs request_sends_send [of "requestNet env req" b res w1] show ?thesis
      by (auto simp: sendToPartition_retry_def split: prod.splits)
  qed
qed



lemma find_append:
  "find P (xs @ ys) = (case find P xs of Some x \<Rightarrow> Some x | None \<Rightarrow> find P ys)"
  by (induction xs) auto

lemma latest_Nil: "latest key k [] = None"
  by (simp add: latest_def)

lemma latest_Cons:
  "latest key k (x # xs) =
     (case latest key k xs of Some y \<Rightarrow> Some y | None \<Rightarrow> if key x = k then Some x else None)"
  by (simp add: latest_def find_append split: option.splits)

lemma latest_mem: "latest key k xs = Some x \<Longrightarrow> x \<in> set xs \<and> key x = k"
proof -
  assume "latest key k xs = Some x"
  then have "find (\<lambda>x. key x = k) (rev xs) = Some x" by (simp add: latest_def)
  then obtain i where "i < length (rev xs)" "key (rev xs ! i) = k" "x = rev xs ! i"
    unfolding find_Some_iff by blast
  then have "x \<in> set (rev xs)" "key x = k" by (auto simp del: set_rev)
  then show ?thesis by simp
qed

lemma latest_None: "latest key k xs = None \<longleftrightarrow> k \<notin> key ` set xs"
  by (auto simp: latest_def find_None_iff)

lemma refreshTopics_brokers_lookup:
  "map_of (refreshTopics_brokers bs al) i =
     (case latest bid i bs of Some b \<Rightarrow> Some b | None \<Rightarrow> map_of al i)"
  by (induction bs arbitrary: al)
     (auto simp: latest_Nil latest_Cons AList.update_conv' split: option.splits)

lemma refreshTopics_partitions_error:
  "fst (refreshTopics_partitions ps al) = map_option KErr (find (\<lambda>c. c \<noteq> NO_ERROR) (map p_err ps))"
  by (induction ps arbitrary: al) auto

lemma refreshTopics_partitions_before:
  "snd (refreshTopics_partitions ps al) = snd (refreshTopics_partitions (takeWhile no_error ps) al)"
  by (induction ps arbitrary: al) (auto simp: no_error_def)

lemma refreshTopics_partitions_lookup:
  "list_all no_error ps \<Longrightarrow>
   map_of (snd (refreshTopics_partitions ps al)) i =
     (case latest p_id i ps of Some p \<Rightarrow> Some p | None \<Rightarrow> map_of al i)"
  by (induction ps arbitrary: al)
     (auto simp: latest_Nil latest_Cons AList.update_conv' no_error_def split: option.splits)

lemma refreshTopics_partitions_distinct:
  "distinct (map fst al) \<Longrightarrow> distinct (map fst (snd (refreshTopics_partitions ps al)))"
  by (induction ps arbitrary: al) (auto simp: AList.distinct_update)

lemma refreshTopics_partitions_entries:
  "set (snd (refreshTopics_partitions ps al)) \<subseteq> set al \<union> (\<lambda>p. (p_id p, p)) ` set ps"
proof (induction ps arbitrary: al)
  case Nil
  show ?case by simp
next
  case (Cons p ps)
  show ?case
  proof (cases "p_err p \<noteq> NO_ERROR")
    case True
    then show ?thesis by auto
  next
    case False
    with Cons [of "AList.update (p_id p) p al"] set_update_subset [of "p_id p" p al]
    show ?thesis by auto
  qed
qed

lemma find_error_codes_Cons:
  "find (\<lambda>c. c \<noteq> NO_ERROR) (error_codes (t # ts)) =
     (if t_err t \<noteq> NO_ERROR then Some (t_err t)
      else case find (\<lambda>c. c \<noteq> NO_ERROR) (map p_err (t_partitions t)) of
             Some c \<Rightarrow> Some c
           | None \<Rightarrow> find (\<lambda>c. c \<noteq> NO_ERROR) (error_codes ts))"
  by (simp add: error_codes_def find_append split: option.splits)

lemma find_no_error:
  "find (\<lambda>c. c \<noteq> NO_ERROR) (map p_err ps) = None \<longleftrightarrow> list_all no_error ps"
  by (auto simp: find_None_iff list_all_iff no_error_def)

lemma refreshTopics_topics_error:
  "fst (refreshTopics_topics ts m) = map_option KErr (find (\<lambda>c. c \<noteq> NO_ERROR) (error_codes ts))"
proof (induction ts arbitrary: m)
  case Nil
  show ?case by (simp add: error_codes_def)
next
  case (Cons t ts)
  obtain e id_map where p: "refreshTopics_partitions (t_partitions t) [] = (e, id_map)"
    by (cases "refreshTopics_partitions (t_partitions t) []") auto
  with refreshTopics_partitions_error [of "t_partitions t" "[]"]
  have e: "e = map_option KErr (find (\<lambda>c. c \<noteq> NO_ERROR) (map p_err (t_partitions t)))"
    by simp
  show ?case
    unfolding find_error_codes_Cons using p e Cons
    by (cases "find (\<lambda>c. c \<noteq> NO_ERROR) (map p_err (t_partitions t))") auto
qed

lemma refreshTopics_topics_lookup:
  "snd (refreshTopics_topics ts m) n =
     (case latest name n (before_error ts) of
        Some u \<Rightarrow> Some (snd (refreshTopics_partitions (t_partitions u) []))
      | None \<Rightarrow> m n)"
proof (induction ts arbitrary: m)
  case Nil
  show ?case by (simp add: latest_Nil)
next
  case (Cons t ts)
  obtain e id_map where p: "refreshTopics_partitions (t_partitions t) [] = (e, id_map)"
    by (cases "refreshTopics_partitions (t_partitions t) []") auto
  with refreshTopics_partitions_error [of "t_partitions t" "[]"]
  have e: "e = map_option KErr (find (\<lambda>c. c \<noteq> NO_ERROR) (map p_err (t_partitions t)))"
    by simp
  from p have id_map: "snd (refreshTopics_partitions (t_partitions t) []) = id_map" by simp
  show ?case
  proof (cases "t_err t \<noteq> NO_ERROR")
    case True
    then show ?thesis by (simp add: latest_Nil)
  next
    case noerr: False
    show ?thesis
    proof (cases "list_all no_error (t_partitions t)")
      case True
      with e have "e = None" by (simp add: find_no_error)
      with noerr True p
      have step: "refreshTopics_topics (t # ts) m = refreshTopics_topics ts (m(name t \<mapsto> id_map))"
        by simp
      from noerr True have be: "before_error (t # ts) = t # before_error ts" by simp
      note IH = Cons [of "m(name t \<mapsto> id_map)"]
      show ?thesis
        unfolding step be latest_Cons IH using id_map
        by (cases "latest name n (before_error ts)") auto
    next
      case False
      with e obtain c where "e = Some c"
        by (cases "find (\<lambda>c. c \<noteq> NO_ERROR) (map p_err (t_partitions t))")
           (auto simp: find_no_error)
      with noerr False p
      have step: "refreshTopics_topics (t # ts) m = (Some c, m(name t \<mapsto> id_map))"
        by simp
      from noerr False have be: "before_error (t # ts)
          = [t\<lparr>t_partitions := takeWhile no_error (t_partitions t)\<rparr>]"
        by simp
      have "snd (refreshTopics_partitions (takeWhile no_error (t_partitions t)) []) = id_map"
        using refreshTopics_partitions_before [of "t_partitions t" "[]"] id_map by simp
      then show ?thesis
        unfolding step be latest_Cons latest_Nil by simp
    qed
  qed
qed

lemma before_error_all:
  "find (\<lambda>c. c \<noteq> NO_ERROR) (error_codes ts) = None \<Longrightarrow> before_error ts = ts"
  by (induction ts) (auto simp: find_error_codes_Cons find_no_error split: option.splits if_splits)

lemma before_error_no_error:
  "u \<in> set (before_error ts) \<Longrightarrow> list_all no_error (t_partitions u)"
proof (induction ts)
  case Nil
  then show ?case by simp
next
  case (Cons t ts)
  then show ?case
    by (auto simp: list_all_iff split: if_splits dest: set_takeWhileD)
qed

lemma refreshTopics_apply:
  assumes "metadata_reply env topics bm w = Some ((g, None, response), bm1, w1)"
  shows "refreshTopics env topics bm w =
           Some (fst (refreshTopics_topics (m_topics response) (partitions bm1)),
                 bm1\<lparr>brokers := refreshTopics_brokers (m_brokers response) (brokers bm1),
                      partitions := snd (refreshTopics_topics (m_topics response) (partitions bm1))\<rparr>,
                 w1)"
  using assms by (simp add: refreshTopics_def metadata_reply_def split: prod.splits)

lemma latest_snoc: "key x = k \<Longrightarrow> latest key k (xs @ [x]) = Some x"
  by (simp add: latest_def)

lemma error_codes_append: "error_codes (xs @ ys) = error_codes xs @ error_codes ys"
  by (simp add: error_codes_def)

lemma clean_prefix_codes:
  "list_all (\<lambda>u. t_err u = NO_ERROR \<and> list_all no_error (t_partitions u)) pre \<Longrightarrow>
   find (\<lambda>c. c \<noteq> NO_ERROR) (error_codes pre) = None"
proof (induction pre)
  case Nil
  show ?case by (simp add: error_codes_def)
next
  case (Cons u pre)
  then show ?case by (simp add: find_error_codes_Cons find_no_error [THEN iffD2])
qed

lemma before_error_append:
  "list_all (\<lambda>u. t_err u = NO_ERROR \<and> list_all no_error (t_partitions u)) pre \<Longrightarrow>
   before_error (pre @ rest) = pre @ before_error rest"
  by (induction pre) simp_all

lemma takeWhile_stop:
  "list_all P xs \<Longrightarrow> \<not> P y \<Longrightarrow> takeWhile P (xs @ y # ys) = xs"
  by (induction xs) simp_all

lemma inner_map_lookup:
  assumes "list_all no_error ps"
  shows "map_of (snd (refreshTopics_partitions ps [])) = (\<lambda>i. latest p_id i ps)"
proof
  fix i
  show "map_of (snd (refreshTopics_partitions ps [])) i = latest p_id i ps"
    using refreshTopics_partitions_lookup [OF assms, of "[]" i]
    by (simp split: option.splits)
qed

lemma error_codes_contains:
  assumes "\<exists>t \<in> set ts.
           t_err t \<noteq> NO_ERROR \<or> (\<exists>p \<in> set (t_partitions t). p_err p \<noteq> NO_ERROR)"
  shows "\<exists>c \<in> set (error_codes ts). c \<noteq> NO_ERROR"
proof -
  from assms obtain t where t: "t \<in> set ts"
    and d: "t_err t \<noteq> NO_ERROR \<or> (\<exists>p \<in> set (t_partitions t). p_err p \<noteq> NO_ERROR)"
    by blast
  have sub: "set (t_err t # map p_err (t_partitions t)) \<subseteq> set (error_codes ts)"
    using t unfolding error_codes_def by auto
  from d have "\<exists>c \<in> set (t_err t # map p_err (t_partitions t)). c \<noteq> NO_ERROR"
    by auto
  with sub show ?thesis by blast
qed

lemma find_holds: "find P xs = Some c \<Longrightarrow> P c"
  by (induction xs) (auto split: if_splits)

lemma refreshTopics_brokers_keys:
  "bid ` set bs \<subseteq> fst ` set (refreshTopics_brokers bs al)"
proof
  fix i
  assume "i \<in> bid ` set bs"
  then have "latest bid i bs \<noteq> None" by (simp add: latest_None)
  then have "map_of (refreshTopics_brokers bs al) i \<noteq> None"
    by (auto simp: refreshTopics_brokers_lookup)
  then show "i \<in> fst ` set (refreshTopics_brokers bs al)"
    by (simp add: map_of_eq_None_iff)
qed

lemma refreshTopics_topics_distinct:
  assumes "snd (refreshTopics_topics ts m) n = Some id_map"
  shows "m n = Some id_map \<or> distinct (map fst id_map)"
proof (cases "latest name n (before_error ts)")
  case None
  with assms refreshTopics_topics_lookup [of ts m n] show ?thesis by simp
next
  case (Some u)
  with assms refreshTopics_topics_lookup [of ts m n]
  have "id_map = snd (refreshTopics_partitions (t_partitions u) [])" by simp
  with refreshTopics_partitions_distinct [of "[]" "t_partitions u"] show ?thesis by simp
qed

lemma refreshTopics_entries:
  assumes "brokers_keyed bm"
    and "refreshTopics env topics bm w = Some (e, bm', w')"
    and "partitions bm' n = Some id_map"
  shows "partitions bm n = Some id_map \<or> distinct (map fst id_map)"
proof -
  let ?w = "w\<lparr>refreshes := refreshes w @ [topics]\<rparr>"
  from sendToAny_total [OF assms(1), of "mapOrder env" "metadataNet env topics" "MetadataSend topics"
      new_metadata ?w]
  obtain r bm1 w1 where run: "metadata_reply env topics bm w = Some (r, bm1, w1)"
    and post: "sendToAny_post (metadataNet env topics) (MetadataSend topics) bm ?w r bm1 w1"
    unfolding metadata_reply_def by blast
  from post have same: "partitions bm1 = partitions bm" by (simp add: sendToAny_post_def)
  obtain g err response where r: "r = (g, err, response)" by (cases r) auto
  show ?thesis
  proof (cases err)
    case (Some e')
    with run r assms(2) have "bm' = bm1"
      by (simp add: refreshTopics_def metadata_reply_def)
    with same assms(3) show ?thesis by simp
  next
    case None
    with run r refreshTopics_apply [of env topics bm w g response bm1 w1] assms(2)
    have "partitions bm' = snd (refreshTopics_topics (m_topics response) (partitions bm1))"
      by auto
    with assms(3) refreshTopics_topics_distinct [of "m_topics response" "partitions bm1" n id_map]
      same
    show ?thesis by simp
  qed
qed

lemma newBrokerManager_keyed:
  assumes "newBrokerManager env made w = Some (Inr bm, w')"
  shows "brokers_keyed bm"
proof -
  from assms obtain b where made: "made = Inr b"
    by (cases made) (auto simp: newBrokerManager_def)
  let ?bm0 = "\<lparr>defaultBroker = Some b, brokers = [], partitions = Map.empty\<rparr>"
  have "brokers_keyed ?bm0" by (simp add: brokers_keyed_def)
  from refreshTopics_total [OF this, of env "[]" w] obtain e bm1 w1 where
    "refreshTopics env [] ?bm0 w = Some (e, bm1, w1)" "brokers_keyed bm1"
    by blast
  with assms made show ?thesis
    by (cases e) (auto simp: newBrokerManager_def)
qed

lemma mset_range_order: "mset (range_order cs xs) = mset xs"
proof (induction xs arbitrary: cs)
  case Nil
  show ?case by simp
next
  case (Cons x xs)
  let ?ys = "range_order (drop 1 cs) xs"
  let ?i = "(case cs of [] \<Rightarrow> 0 | c # _ \<Rightarrow> c) mod Suc (length ?ys)"
  have "mset (take ?i ?ys) + mset (drop ?i ?ys) = mset ?ys"
    by (metis append_take_drop_id mset_append)
  also have "\<dots> = mset xs" by (rule Cons.IH)
  finally show ?case by (simp add: Let_def)
qed

lemma set_range_order: "set (range_order cs xs) = set xs"
  using mset_range_order [of cs xs] by (rule mset_eq_setD)

lemma distinct_range_order: "distinct (range_order cs xs) = distinct xs"
  using mset_range_order [of cs xs] by (rule mset_eq_imp_distinct_iff)

text \<open>Every order of the entries is the order of some iteration.\<close>

lemma range_order_any:
  "mset ys = mset xs \<Longrightarrow> \<exists>cs. range_order cs xs = ys"
proof (induction xs arbitrary: ys)
  case Nil
  then show ?case by simp
next
  case (Cons x xs)
  from Cons.prems have "x \<in> set ys" by (metis list.set_intros(1) mset_eq_setD)
  then obtain as bs where ys: "ys = as @ x # bs" by (meson split_list)
  with Cons.prems have "mset (as @ bs) = mset xs" by simp
  from Cons.IH [OF this] obtain cs where cs: "range_order cs xs = as @ bs" by blast
  have "range_order (length as # cs) (x # xs) = as @ x # bs"
    by (simp add: cs Let_def)
  with ys show ?case by blast
qed

lemma partitionsForTopic_keyed:
  assumes "brokers_keyed bm" and "partitionsForTopic env topic bm w = Some (r, bm', w')"
  shows "brokers_keyed bm'"
proof (cases "partitions bm topic")
  case (Some id_map)
  with assms show ?thesis by (auto simp: partitionsForTopic_def split: prod.splits)
next
  case None
  from refreshTopics_total [OF assms(1), of env "[topic]" w] obtain e bm1 w1 where
    "refreshTopic env topic bm w = Some (e, bm1, w1)" "brokers_keyed bm1"
    unfolding refreshTopic_def by blast
  with None assms(2) show ?thesis
    by (cases e; cases "partitions bm1 topic")
       (auto simp: partitionsForTopic_def split: prod.splits)
qed

lemma sendToPartition_total:
  assumes "brokers_keyed bm"
  shows "\<exists>r bm' w'. sendToPartition env topic partition_id req res bm w = Some (r, bm', w') \<and>
           brokers_keyed bm' \<and> request_sends w' \<le> request_sends w + 2"
proof -
  from getValidLeader_total [OF assms, of env topic partition_id w] obtain r1 bm1 w1 where
    lead: "getValidLeader env topic partition_id bm w = Some (r1, bm1, w1)"
    and keyed1: "brokers_keyed bm1" and rs1: "request_sends w1 = request_sends w"
    by blast
  show ?thesis
  proof (cases r1)
    case (Inl e)
    with lead rs1 keyed1 show ?thesis by (auto simp: sendToPartition_def)
  next
    case (Inr b)
    obtain g err res1 where reply: "requestNet env req (length (sent w1)) b res = (g, err, res1)"
      by (cases "requestNet env req (length (sent w1)) b res") auto
    let ?w2 = "w1\<lparr>sent := sent w1 @ [(b, RequestSend)]\<rparr>"
    have rs2: "request_sends ?w2 = Suc (request_sends w)"
      using rs1 by (simp add: request_sends_def)
    have retry: "\<exists>r bm' w'. sendToPartition_retry env topic partition_id req res1 bm2 ?w2
          = Some (r, bm', w') \<and> brokers_keyed bm' \<and> request_sends w' \<le> request_sends w + 2"
      if "brokers_keyed bm2" for bm2
      using sendToPartition_retry_total [OF that, of env topic partition_id req res1 ?w2] rs2
      by auto
    show ?thesis
    proof (cases "broker_error err")
      case True
      from keyed1 have "brokers_keyed (terminateBroker (bid b) bm1)"
        by (auto simp: brokers_keyed_def terminateBroker_def list_all_iff AList.delete_eq)
      from retry [OF this] True lead Inr reply show ?thesis
        by (cases err rule: broker_error.cases)
           (simp_all add: sendToPartition_def sendAndReceive_def)
    next
      case False
      then consider (enc) s where "err = Some (EncodingError s)" | (nil) "err = None"
        by (cases err rule: broker_error.cases) auto
      then show ?thesis
      proof cases
        case enc
        with lead Inr reply rs2 keyed1 show ?thesis
          by (auto simp: sendToPartition_def sendAndReceive_def)
      next
        case nil
        show ?thesis
        proof (cases "g \<and> staleTopics env res1 \<noteq> []")
          case False
          with nil lead Inr reply rs2 keyed1 show ?thesis
            by (auto simp: sendToPartition_def sendAndReceive_def Let_def)
        next
          case True
          from refreshTopics_total [OF keyed1, of env "staleTopics env res1" ?w2]
          obtain e bm3 w3 where
            rf: "refreshTopics env (staleTopics env res1) bm1 ?w2 = Some (e, bm3, w3)"
            and keyed3: "brokers_keyed bm3" and rs3: "request_sends w3 = request_sends ?w2"
            by blast
          show ?thesis
          proof (cases e)
            case (Some e')
            with True nil lead Inr reply rf rs2 rs3 keyed3 show ?thesis
              by (auto simp: sendToPartition_def sendAndReceive_def Let_def)
          next
            case None
            from sendToPartition_retry_total [OF keyed3, of env topic partition_id req res1 w3]
              rs2 rs3
            have "\<exists>r bm' w'. sendToPartition_retry env topic partition_id req res1 bm3 w3
                = Some (r, bm', w') \<and> brokers_keyed bm' \<and>
                request_sends w' \<le> request_sends w + 2"
              by auto
            with None True nil lead Inr reply rf show ?thesis
              by (simp add: sendToPartition_def sendAndReceive_def Let_def)
          qed
        qed
      qed
    qed
  qed
qed

text \<open>
  Why the invariant is assumed: on the mis-keyed manager, with every send failing, the
  loop of \<^verbatim>\<open>sendToAny\<close> never returns.
\<close>

lemma sendToAny_stuck:
  assumes "sendToAny order x k res bm w = Some y"
  shows "x = down \<longrightarrow> bm \<noteq> bm_miskeyed"
proof (rule sendToAny.raw_induct
    [of "\<lambda>order x k res bm w y. x = down \<longrightarrow> bm \<noteq> bm_miskeyed"
      "(((((order, x), k), res), bm), w)" y, unfolded prod.case])
  show "sendToAny order x k res bm w = Some y" by (rule assms)
next
  fix f :: "(nat \<Rightarrow> nat) \<Rightarrow> 'a exchange \<Rightarrow> sendKind \<Rightarrow> 'a \<Rightarrow> brokerManager \<Rightarrow> world
     \<Rightarrow> ((bool \<times> error option \<times> 'a) \<times> brokerManager \<times> world) option"
  fix order x k res bm w y
  assume IH: "\<And>order' x' k' res' bm' w' y'.
      f order' x' k' res' bm' w' = Some y' \<Longrightarrow> x' = down \<longrightarrow> bm' \<noteq> bm_miskeyed"
  assume body: "(case getDefault order bm w of
      (None, bm1, w1) \<Rightarrow> Some ((False, Some OutOfBrokers, res), bm1, w1)
      | (Some b, bm1, w1) \<Rightarrow>
          case sendAndReceive x k b res w1 of
          ((gotResponse, err, res'), w2) \<Rightarrow>
            case err of None \<Rightarrow> Some ((gotResponse, err, res'), bm1, w2)
            | Some (EncodingError s) \<Rightarrow>
                Some ((gotResponse, err, res'), bm1, w2)
            | Some _ \<Rightarrow>
                f order x k res'
                 (terminateBroker (bid b) (bm1\<lparr>defaultBroker := None\<rparr>))
                 w2) = Some y"
  show "x = down \<longrightarrow> bm \<noteq> bm_miskeyed"
  proof (intro impI notI)
    assume "x = down" "bm = bm_miskeyed"
    with body have "f order down k res bm_miskeyed
        (w\<lparr>picks := Suc (picks w), sent := sent w @ [(brokerX, k)]\<rparr>) = Some y"
      by (simp add: getDefault_def sendAndReceive_def down_def terminateBroker_def
          bm_miskeyed_def brokerX_def)
    from IH [OF this] show False by simp
  qed
qed

lemma sendToAny_miskeyed_diverges: "sendToAny order down k res bm_miskeyed w = None"
  using sendToAny_stuck [of order down k res bm_miskeyed w]
  by (cases "sendToAny order down k res bm_miskeyed w") auto

section \<open>The claims\<close>

text \<open>
  Claim C3. On a manager whose brokers are stored under their own ids: if every
  \<^verbatim>\<open>sendAndReceive\<close> on every known broker (the default slot and the values of
  \<^verbatim>\<open>brokers\<close>) returns an error that is neither \<^verbatim>\<open>nil\<close> nor an encoding error,
  then \<^verbatim>\<open>sendToAny\<close> terminates and returns
  \<^verbatim>\<open>(false, OutOfBrokers)\<close>; the sends of the call go to known brokers, no broker
  and no broker id is sent to twice, and the call leaves \<^verbatim>\<open>brokers\<close> and the
  default slot empty.
\<close>

theorem sendToAny_out_of_brokers:
  assumes "brokers_keyed bm"
    and "\<forall>b \<in> known bm. \<forall>t res0. broker_error (fst (snd (x t b res0)))"
  shows "\<exists>res' bm' w' ext.
           sendToAny order x k res bm w = Some ((False, Some OutOfBrokers, res'), bm', w') \<and>
           sent w' = sent w @ ext \<and> fst ` set ext \<subseteq> known bm \<and>
           distinct (map fst ext) \<and> distinct (map (bid \<circ> fst) ext) \<and>
           brokers bm' = [] \<and> defaultBroker bm' = None"
proof -
  from sendToAny_total [OF assms(1), of order x k res w] obtain r bm' w' where
    run: "sendToAny order x k res bm w = Some (r, bm', w')"
    and post: "sendToAny_post x k bm w r bm' w'"
    by blast
  from post assms(2) have err: "broker_error (fst (snd r))"
    unfolding sendToAny_post_def by blast
  with post have out: "fst r = False" "fst (snd r) = Some OutOfBrokers" "brokers bm' = []"
    "defaultBroker bm' = None"
    unfolding sendToAny_post_def by blast+
  from post obtain ext where ext: "sent w' = sent w @ ext" "fst ` set ext \<subseteq> known bm"
    "distinct (map (bid \<circ> fst) ext)"
    unfolding sendToAny_post_def by blast
  from ext(3) have "distinct (map bid (map fst ext))" by simp
  then have "distinct (map fst ext)" by (simp only: distinct_map)
  moreover from out(1,2) have "r = (False, Some OutOfBrokers, snd (snd r))"
    by (cases r) auto
  ultimately show ?thesis using run ext out(3,4) by metis
qed

theorem sendToAny_out_of_brokers_witness:
  "brokers_keyed bm_outage \<and>
   (\<forall>b t res0. broker_error (fst (snd (down t b (res0 :: metadata))))) \<and>
   (\<exists>res' bm' w' ext.
      sendToAny (\<lambda>n. n) down (MetadataSend []) new_metadata bm_outage w0
        = Some ((False, Some OutOfBrokers, res'), bm', w') \<and>
      sent w' = sent w0 @ ext \<and> fst ` set ext \<subseteq> known bm_outage \<and>
      distinct (map fst ext) \<and> distinct (map (bid \<circ> fst) ext) \<and>
      brokers bm' = [] \<and> defaultBroker bm' = None)"
proof -
  have keyed: "brokers_keyed bm_outage"
    by (simp add: brokers_keyed_def bm_outage_def brokerA_def brokerB_def)
  have fails: "\<forall>b t res0. broker_error (fst (snd (down t b (res0 :: metadata))))"
    by (simp add: down_def)
  then have "\<forall>b \<in> known bm_outage. \<forall>t res0. broker_error (fst (snd (down t b (res0 :: metadata))))"
    by blast
  from sendToAny_out_of_brokers [OF keyed this, of "\<lambda>n. n" "MetadataSend []" new_metadata w0]
  show ?thesis using keyed fails by blast
qed

text \<open>
  Claim C7. \<^verbatim>\<open>getLeader\<close> is a pure lookup: it takes the cache and nothing of the
  world, so it sends nothing and refreshes nothing. It returns none exactly when the topic
  is absent from \<^verbatim>\<open>partitions\<close>, or the partition id is absent from the topic's inner
  map, or the partition record's leader id is not a key of \<^verbatim>\<open>brokers\<close>; otherwise it
  returns the broker stored under that leader id.
\<close>

theorem getLeader_lookup:
  "(getLeader bm topic partition_id = None) =
     (partitions bm topic = None \<or>
      (\<exists>id_map. partitions bm topic = Some id_map \<and> partition_id \<notin> fst ` set id_map) \<or>
      (\<exists>id_map p. partitions bm topic = Some id_map \<and> map_of id_map partition_id = Some p \<and>
         leader p \<notin> fst ` set (brokers bm))) \<and>
   (getLeader bm topic partition_id = Some b) =
     (\<exists>id_map p. partitions bm topic = Some id_map \<and> map_of id_map partition_id = Some p \<and>
        map_of (brokers bm) (leader p) = Some b)"
  by (auto simp: getLeader_def map_of_eq_None_iff [symmetric] split: option.splits)

theorem getLeader_lookup_witness:
  "(getLeader bm_cached ''t'' 0 = Some brokerB) \<and> (getLeader bm_cached ''t'' 7 = None) \<and>
   (getLeader bm_cached ''u'' 0 = None) \<and>
   (getLeader (terminateBroker 2 bm_cached) ''t'' 0 = None)"
proof -
  have "getLeader bm_cached ''t'' 0 = Some brokerB"
    using getLeader_lookup [of bm_cached "''t''" 0 brokerB]
    by (simp add: bm_cached_def part0_def)
  moreover have "getLeader bm_cached ''t'' 7 = None"
    using getLeader_lookup [of bm_cached "''t''" 7 brokerB]
    by (simp add: bm_cached_def)
  moreover have "getLeader bm_cached ''u'' 0 = None"
    using getLeader_lookup [of bm_cached "''u''" 0 brokerB]
    by (simp add: bm_cached_def)
  moreover have "getLeader (terminateBroker 2 bm_cached) ''t'' 0 = None"
    using getLeader_lookup [of "terminateBroker 2 bm_cached" "''t''" 0 brokerB]
    by (simp add: bm_cached_def terminateBroker_def part0_def)
  ultimately show ?thesis by simp
qed

text \<open>
  Claim C6. If the first \<^verbatim>\<open>sendAndReceive\<close> inside \<^verbatim>\<open>sendToPartition\<close> returns an
  \<^verbatim>\<open>EncodingError\<close>, then \<^verbatim>\<open>sendToPartition\<close> returns \<^verbatim>\<open>false\<close> with that
  error at once: the log of sends grows by that one send only, and the manager (the
  default slot, \<^verbatim>\<open>brokers\<close> and \<^verbatim>\<open>partitions\<close>) is the one that resolving the leader
  left, so no broker is terminated.
\<close>

theorem sendToPartition_encoding_error:
  assumes "getValidLeader env topic partition_id bm w = Some (Inr b, bm1, w1)"
    and "requestNet env req (length (sent w1)) b res = (g, Some (EncodingError s), res1)"
  shows "sendToPartition env topic partition_id req res bm w =
           Some ((False, Some (EncodingError s), res1), bm1,
                 w1\<lparr>sent := sent w1 @ [(b, RequestSend)]\<rparr>)"
  using assms by (simp add: sendToPartition_def sendAndReceive_def)

theorem sendToPartition_encoding_error_witness:
  "getValidLeader env_encoding ''t'' 0 bm_cached w0 = Some (Inr brokerB, bm_cached, w0) \<and>
   requestNet env_encoding () (length (sent w0)) brokerB []
     = (False, Some (EncodingError ''message too large''), []) \<and>
   sendToPartition env_encoding ''t'' 0 () [] bm_cached w0 =
     Some ((False, Some (EncodingError ''message too large''), []), bm_cached,
           w0\<lparr>sent := sent w0 @ [(brokerB, RequestSend)]\<rparr>)"
proof -
  have leader: "getValidLeader env_encoding ''t'' 0 bm_cached w0 = Some (Inr brokerB, bm_cached, w0)"
    by (simp add: getValidLeader_def getLeader_def bm_cached_def part0_def)
  have reply: "requestNet env_encoding () (length (sent w0)) brokerB []
      = (False, Some (EncodingError ''message too large''), [])"
    by (simp add: env_encoding_def)
  from sendToPartition_encoding_error [OF leader reply] leader reply show ?thesis by simp
qed

text \<open>
  Claim C2, as amended. Called on a manager whose brokers are stored under their own
  ids, \<^verbatim>\<open>sendToPartition\<close> returns, and during the call the caller's request is sent
  at most twice, whichever branches are taken. The metadata requests of the refreshes
  that the call triggers are network sends too and come on top of these.
\<close>

theorem sendToPartition_two_request_sends:
  assumes "brokers_keyed bm"
  shows "\<exists>r bm' w'. sendToPartition env topic partition_id req res bm w = Some (r, bm', w') \<and>
           request_sends w' \<le> request_sends w + 2"
  using sendToPartition_total [OF assms, of env topic partition_id req res w] by blast

theorem sendToPartition_two_request_sends_witness:
  "brokers_keyed bm_cached \<and>
   (\<exists>r bm' w'. sendToPartition env_stale ''t'' 0 () [] bm_cached w0 = Some (r, bm', w') \<and>
      request_sends w' \<le> request_sends w0 + 2)"
proof -
  have keyed: "brokers_keyed bm_cached"
    by (simp add: brokers_keyed_def bm_cached_def brokerA_def brokerB_def)
  from sendToPartition_two_request_sends [OF keyed, of env_stale "''t''" 0 "()" "[]" w0] keyed
  show ?thesis by blast
qed

text \<open>
  Claim C2, as stated, fails: with a warm cache, a response that reports a stale topic
  makes the call send the request, then a metadata request, then the request again.
\<close>

theorem sendToPartition_three_sends:
  "map_option (sent \<circ> snd \<circ> snd) (sendToPartition env_stale ''t'' 0 () [] bm_cached w0) =
     Some [(brokerB, RequestSend), (brokerA, MetadataSend [''t'']), (brokerB, RequestSend)]"
  by (simp add: sendToPartition_def sendToPartition_retry_def getValidLeader_def getLeader_def
      refreshTopics_def sendToAny.simps getDefault_def sendAndReceive_def new_metadata_def
      env_stale_def md_t_def bm_cached_def w0_def part0_def part1_def brokerA_def brokerB_def)




text \<open>
  Claim C9. On a manager whose brokers are stored under their own ids: if the first
  attempt of \<^verbatim>\<open>sendToPartition\<close> receives a response whose
  \<^verbatim>\<open>staleTopics()\<close> set is not empty and the refresh of those topics returns an error,
  then \<^verbatim>\<open>sendToPartition\<close> returns \<^verbatim>\<open>true\<close> with that error, and the request has
  been sent once only. So \<^verbatim>\<open>gotResponse = true\<close> with a non-nil error is a possible
  result.
\<close>

theorem sendToPartition_refresh_error:
  assumes "brokers_keyed bm"
    and "getValidLeader env topic partition_id bm w = Some (Inr b, bm1, w1)"
    and "requestNet env req (length (sent w1)) b res = (True, None, res1)"
    and "staleTopics env res1 \<noteq> []"
    and "refreshTopics env (staleTopics env res1) bm1 (w1\<lparr>sent := sent w1 @ [(b, RequestSend)]\<rparr>)
           = Some (Some e, bm3, w3)"
  shows "sendToPartition env topic partition_id req res bm w = Some ((True, Some e, res1), bm3, w3) \<and>
         request_sends w3 = Suc (request_sends w)"
proof -
  let ?w2 = "w1\<lparr>sent := sent w1 @ [(b, RequestSend)]\<rparr>"
  from getValidLeader_total [OF assms(1), of env topic partition_id w] assms(2)
  have keyed1: "brokers_keyed bm1" and rs1: "request_sends w1 = request_sends w"
    by auto
  from refreshTopics_total [OF keyed1, of env "staleTopics env res1" ?w2] assms(5)
  have "request_sends w3 = request_sends ?w2" by auto
  with rs1 have "request_sends w3 = Suc (request_sends w)"
    by (simp add: request_sends_def)
  moreover from assms(2-5)
  have "sendToPartition env topic partition_id req res bm w = Some ((True, Some e, res1), bm3, w3)"
    by (simp add: sendToPartition_def sendAndReceive_def Let_def)
  ultimately show ?thesis by simp
qed

theorem sendToPartition_refresh_error_witness:
  "brokers_keyed bm_cached \<and>
   getValidLeader env_stale_error ''t'' 0 bm_cached w0 = Some (Inr brokerB, bm_cached, w0) \<and>
   requestNet env_stale_error () (length (sent w0)) brokerB [] = (True, None, [''t'']) \<and>
   staleTopics env_stale_error [''t''] \<noteq> [] \<and>
   refreshTopics env_stale_error (staleTopics env_stale_error [''t'']) bm_cached
       (w0\<lparr>sent := sent w0 @ [(brokerB, RequestSend)]\<rparr>)
     = Some (Some (KErr (OTHER_KERROR 5)), bm_cached,
         \<lparr>sent = [(brokerB, RequestSend), (brokerA, MetadataSend [''t''])], picks = 0,
          refreshes = [[''t'']]\<rparr>) \<and>
   sendToPartition env_stale_error ''t'' 0 () [] bm_cached w0
     = Some ((True, Some (KErr (OTHER_KERROR 5)), [''t'']), bm_cached,
         \<lparr>sent = [(brokerB, RequestSend), (brokerA, MetadataSend [''t''])], picks = 0,
          refreshes = [[''t'']]\<rparr>) \<and>
   request_sends \<lparr>sent = [(brokerB, RequestSend), (brokerA, MetadataSend [''t''])], picks = 0,
          refreshes = [[''t'']]\<rparr> = Suc (request_sends w0)"
proof -
  have keyed: "brokers_keyed bm_cached"
    by (simp add: brokers_keyed_def bm_cached_def brokerA_def brokerB_def)
  have leader: "getValidLeader env_stale_error ''t'' 0 bm_cached w0 = Some (Inr brokerB, bm_cached, w0)"
    by (simp add: getValidLeader_def getLeader_def bm_cached_def part0_def)
  have reply: "requestNet env_stale_error () (length (sent w0)) brokerB [] = (True, None, [''t''])"
    by (simp add: env_stale_error_def)
  have stale: "staleTopics env_stale_error [''t''] \<noteq> []"
    by (simp add: env_stale_error_def)
  have refresh: "refreshTopics env_stale_error (staleTopics env_stale_error [''t'']) bm_cached
       (w0\<lparr>sent := sent w0 @ [(brokerB, RequestSend)]\<rparr>)
     = Some (Some (KErr (OTHER_KERROR 5)), bm_cached,
         \<lparr>sent = [(brokerB, RequestSend), (brokerA, MetadataSend [''t''])], picks = 0,
          refreshes = [[''t'']]\<rparr>)"
    by (simp add: refreshTopics_def sendToAny.simps getDefault_def sendAndReceive_def
        new_metadata_def env_stale_error_def md_t_error_def bm_cached_def w0_def
        brokerA_def brokerB_def)
  from sendToPartition_refresh_error [OF keyed leader reply stale refresh]
    keyed leader reply stale refresh
  show ?thesis by simp
qed

text \<open>
  Claim C10. When \<^verbatim>\<open>refreshTopics\<close> meets a partition record with an error code other
  than \<open>NO_ERROR\<close> (in topic \<open>t\<close>, after the clean topics \<open>pre\<close> and the clean
  partitions \<open>ps\<close>), it returns that code, and the inner map of \<open>t\<close> has already
  been replaced by a new map that holds the partitions \<open>ps\<close> before the failing one and
  no other: a partition of \<open>t\<close> that the cache held before the call and that is not
  among \<open>ps\<close> is gone.
\<close>

theorem refreshTopics_partition_error:
  assumes "metadata_reply env topics bm w = Some ((g, None, response), bm1, w1)"
    and "m_topics response = pre @ t # post"
    and "list_all (\<lambda>u. t_err u = NO_ERROR \<and> list_all no_error (t_partitions u)) pre"
    and "t_err t = NO_ERROR"
    and "t_partitions t = ps @ p # qs"
    and "list_all no_error ps"
    and "p_err p \<noteq> NO_ERROR"
  shows "\<exists>bm' id_map.
           refreshTopics env topics bm w = Some (Some (KErr (p_err p)), bm', w1) \<and>
           partitions bm' (name t) = Some id_map \<and>
           map_of id_map = (\<lambda>i. latest p_id i ps) \<and> fst ` set id_map = p_id ` set ps"
proof -
  let ?ts = "m_topics response"
  let ?t' = "t\<lparr>t_partitions := ps\<rparr>"
  let ?id_map = "snd (refreshTopics_partitions ps [])"
  from assms(7) have bad: "\<not> no_error p" by (simp add: no_error_def)
  with assms(5,6) have stop: "takeWhile no_error (t_partitions t) = ps"
    by (simp add: takeWhile_stop)
  from assms(5) bad have "\<not> list_all no_error (t_partitions t)" by simp
  with assms(4) stop have "before_error (t # post) = [?t']" by simp
  with assms(2,3) have "before_error ?ts = pre @ [?t']" by (simp add: before_error_append)
  then have "latest name (name t) (before_error ?ts) = Some ?t'" by (simp add: latest_snoc)
  with refreshTopics_topics_lookup [of ?ts "partitions bm1" "name t"]
  have entry: "snd (refreshTopics_topics ?ts (partitions bm1)) (name t) = Some ?id_map"
    by simp
  from assms(6) bad
  have "find (\<lambda>c. c \<noteq> NO_ERROR) (map p_err (ps @ p # qs)) = Some (p_err p)"
    by (induction ps) (simp_all add: no_error_def)
  with assms(4,5) have "find (\<lambda>c. c \<noteq> NO_ERROR) (error_codes (t # post)) = Some (p_err p)"
    by (simp add: find_error_codes_Cons)
  with assms(2) clean_prefix_codes [OF assms(3)]
  have "find (\<lambda>c. c \<noteq> NO_ERROR) (error_codes ?ts) = Some (p_err p)"
    by (simp add: error_codes_append find_append)
  then have err: "fst (refreshTopics_topics ?ts (partitions bm1)) = Some (KErr (p_err p))"
    by (simp add: refreshTopics_topics_error)
  have look: "map_of ?id_map = (\<lambda>i. latest p_id i ps)"
    using assms(6) by (rule inner_map_lookup)
  have "fst ` set ?id_map = dom (map_of ?id_map)" by (simp add: dom_map_of_conv_image_fst)
  also have "\<dots> = {i. latest p_id i ps \<noteq> None}" unfolding look by (simp add: dom_def)
  also have "\<dots> = p_id ` set ps" by (simp add: latest_None)
  finally have keys: "fst ` set ?id_map = p_id ` set ps" .
  from refreshTopics_apply [OF assms(1)] err entry look keys show ?thesis by simp
qed

theorem refreshTopics_partition_error_witness:
  "metadata_reply env_partial [] bm_cached w0 = Some ((True, None, md_partial), bm_cached, w_refreshed) \<and>
   m_topics md_partial = [topic_s] @ topic_t_bad # [topic_u] \<and>
   list_all (\<lambda>u. t_err u = NO_ERROR \<and> list_all no_error (t_partitions u)) [topic_s] \<and>
   t_err topic_t_bad = NO_ERROR \<and>
   t_partitions topic_t_bad = [part0] @ part1_bad # [] \<and>
   list_all no_error [part0] \<and>
   p_err part1_bad \<noteq> NO_ERROR \<and>
   getLeader bm_cached ''t'' 1 = Some brokerA \<and>
   (\<exists>bm' id_map.
      refreshTopics env_partial [] bm_cached w0
        = Some (Some (KErr (p_err part1_bad)), bm', w_refreshed) \<and>
      partitions bm' (name topic_t_bad) = Some id_map \<and>
      map_of id_map = (\<lambda>i. latest p_id i [part0]) \<and> fst ` set id_map = p_id ` set [part0] \<and>
      getLeader bm' ''t'' 1 = None)"
proof -
  have reply: "metadata_reply env_partial [] bm_cached w0
      = Some ((True, None, md_partial), bm_cached, w_refreshed)"
    by (simp add: metadata_reply_def sendToAny.simps getDefault_def sendAndReceive_def
        env_partial_def bm_cached_def w0_def w_refreshed_def)
  have topics: "m_topics md_partial = [topic_s] @ topic_t_bad # [topic_u]"
    by (simp add: md_partial_def)
  have clean: "list_all (\<lambda>u. t_err u = NO_ERROR \<and> list_all no_error (t_partitions u)) [topic_s]"
    by (simp add: topic_s_def no_error_def part1_def)
  have terr: "t_err topic_t_bad = NO_ERROR" by (simp add: topic_t_bad_def)
  have parts: "t_partitions topic_t_bad = [part0] @ part1_bad # []" by (simp add: topic_t_bad_def)
  have ok: "list_all no_error [part0]" by (simp add: no_error_def part0_def)
  have bad: "p_err part1_bad \<noteq> NO_ERROR" by (simp add: part1_bad_def)
  have before: "getLeader bm_cached ''t'' 1 = Some brokerA"
    by (simp add: getLeader_def bm_cached_def part1_def)
  from refreshTopics_partition_error [OF reply topics clean terr parts ok bad]
  obtain bm' id_map where
    r: "refreshTopics env_partial [] bm_cached w0
        = Some (Some (KErr (p_err part1_bad)), bm', w_refreshed)"
      "partitions bm' (name topic_t_bad) = Some id_map"
      "map_of id_map = (\<lambda>i. latest p_id i [part0])" "fst ` set id_map = p_id ` set [part0]"
    by blast
  from r(3) have "map_of id_map 1 = None" by (simp add: latest_def part0_def)
  with r(2) have "getLeader bm' ''t'' 1 = None"
    by (simp add: getLeader_def topic_t_bad_def)
  with r have after: "\<exists>bm' id_map.
      refreshTopics env_partial [] bm_cached w0
        = Some (Some (KErr (p_err part1_bad)), bm', w_refreshed) \<and>
      partitions bm' (name topic_t_bad) = Some id_map \<and>
      map_of id_map = (\<lambda>i. latest p_id i [part0]) \<and> fst ` set id_map = p_id ` set [part0] \<and>
      getLeader bm' ''t'' 1 = None"
    by blast
  from reply topics clean terr parts ok bad before after show ?thesis by simp
qed

text \<open>
  Claim C4. For every metadata response that holds a topic or a partition whose error
  code is not \<open>NO_ERROR\<close>, \<^verbatim>\<open>refreshTopics\<close> returns the first such code in
  response order, and what was applied before that point stays in the cache: every broker
  of the response is stored under its id, and the topics before the error have their
  inner maps replaced (of a topic stopped by one of its partitions, by the partitions
  before that one); every other entry of the two maps is as it was.
\<close>

theorem refreshTopics_first_error:
  assumes "metadata_reply env topics bm w = Some ((g, None, response), bm1, w1)"
    and "\<exists>t \<in> set (m_topics response).
           t_err t \<noteq> NO_ERROR \<or> (\<exists>p \<in> set (t_partitions t). p_err p \<noteq> NO_ERROR)"
  shows "\<exists>c bm'.
           first_error response = Some c \<and> c \<noteq> NO_ERROR \<and>
           refreshTopics env topics bm w = Some (Some (KErr c), bm', w1) \<and>
           defaultBroker bm' = defaultBroker bm1 \<and>
           (\<forall>i. map_of (brokers bm') i =
              (case latest bid i (m_brokers response) of
                 Some b \<Rightarrow> Some b
               | None \<Rightarrow> map_of (brokers bm1) i)) \<and>
           (\<forall>n. map_option map_of (partitions bm' n) =
              (case latest name n (before_error (m_topics response)) of
                 Some u \<Rightarrow> Some (\<lambda>i. latest p_id i (t_partitions u))
               | None \<Rightarrow> map_option map_of (partitions bm1 n)))"
proof -
  let ?ts = "m_topics response"
  let ?bm' = "bm1\<lparr>brokers := refreshTopics_brokers (m_brokers response) (brokers bm1),
      partitions := snd (refreshTopics_topics ?ts (partitions bm1))\<rparr>"
  from assms(2) have "\<exists>c \<in> set (error_codes ?ts). c \<noteq> NO_ERROR"
    by (rule error_codes_contains)
  then have "find (\<lambda>c. c \<noteq> NO_ERROR) (error_codes ?ts) \<noteq> None"
    by (auto simp: find_None_iff)
  then obtain c where c: "find (\<lambda>c. c \<noteq> NO_ERROR) (error_codes ?ts) = Some c"
    by blast
  then have bad: "c \<noteq> NO_ERROR" by (rule find_holds)
  from c have first: "first_error response = Some c" by (simp add: first_error_def)
  from c have "fst (refreshTopics_topics ?ts (partitions bm1)) = Some (KErr c)"
    by (simp add: refreshTopics_topics_error)
  with refreshTopics_apply [OF assms(1)]
  have run: "refreshTopics env topics bm w = Some (Some (KErr c), ?bm', w1)" by simp
  have brs: "\<forall>i. map_of (brokers ?bm') i =
      (case latest bid i (m_brokers response) of
         Some b \<Rightarrow> Some b
       | None \<Rightarrow> map_of (brokers bm1) i)"
    by (simp add: refreshTopics_brokers_lookup)
  have parts: "map_option map_of (partitions ?bm' n) =
      (case latest name n (before_error ?ts) of
         Some u \<Rightarrow> Some (\<lambda>i. latest p_id i (t_partitions u))
       | None \<Rightarrow> map_option map_of (partitions bm1 n))" for n
  proof (cases "latest name n (before_error ?ts)")
    case None
    with refreshTopics_topics_lookup [of ?ts "partitions bm1" n] show ?thesis by simp
  next
    case (Some u)
    then have "u \<in> set (before_error ?ts)" by (blast dest: latest_mem)
    then have "list_all no_error (t_partitions u)" by (rule before_error_no_error)
    then have "map_of (snd (refreshTopics_partitions (t_partitions u) []))
        = (\<lambda>i. latest p_id i (t_partitions u))"
      by (rule inner_map_lookup)
    with Some refreshTopics_topics_lookup [of ?ts "partitions bm1" n] show ?thesis by simp
  qed
  have slot: "defaultBroker ?bm' = defaultBroker bm1" by simp
  have parts': "\<forall>n. map_option map_of (partitions ?bm' n) =
      (case latest name n (before_error ?ts) of
         Some u \<Rightarrow> Some (\<lambda>i. latest p_id i (t_partitions u))
       | None \<Rightarrow> map_option map_of (partitions bm1 n))"
    by (intro allI parts)
  show ?thesis
    by (intro exI [of _ c] exI [of _ "?bm'"] conjI first bad run slot brs parts')
qed

theorem refreshTopics_first_error_witness:
  "metadata_reply env_partial [] bm_cached w0 = Some ((True, None, md_partial), bm_cached, w_refreshed) \<and>
   topic_t_bad \<in> set (m_topics md_partial) \<and> part1_bad \<in> set (t_partitions topic_t_bad) \<and>
   p_err part1_bad \<noteq> NO_ERROR \<and>
   (\<exists>c bm'.
      first_error md_partial = Some c \<and> c \<noteq> NO_ERROR \<and>
      refreshTopics env_partial [] bm_cached w0 = Some (Some (KErr c), bm', w_refreshed) \<and>
      defaultBroker bm' = defaultBroker bm_cached \<and>
      (\<forall>i. map_of (brokers bm') i =
         (case latest bid i (m_brokers md_partial) of
            Some b \<Rightarrow> Some b
          | None \<Rightarrow> map_of (brokers bm_cached) i)) \<and>
      (\<forall>n. map_option map_of (partitions bm' n) =
         (case latest name n (before_error (m_topics md_partial)) of
            Some u \<Rightarrow> Some (\<lambda>i. latest p_id i (t_partitions u))
          | None \<Rightarrow> map_option map_of (partitions bm_cached n))))"
proof -
  have reply: "metadata_reply env_partial [] bm_cached w0
      = Some ((True, None, md_partial), bm_cached, w_refreshed)"
    by (simp add: metadata_reply_def sendToAny.simps getDefault_def sendAndReceive_def
        env_partial_def bm_cached_def w0_def w_refreshed_def)
  have t: "topic_t_bad \<in> set (m_topics md_partial)" by (simp add: md_partial_def)
  have p: "part1_bad \<in> set (t_partitions topic_t_bad)" by (simp add: topic_t_bad_def)
  have bad: "p_err part1_bad \<noteq> NO_ERROR" by (simp add: part1_bad_def)
  from t p bad have "\<exists>t \<in> set (m_topics md_partial).
      t_err t \<noteq> NO_ERROR \<or> (\<exists>p \<in> set (t_partitions t). p_err p \<noteq> NO_ERROR)"
    by blast
  note concl = refreshTopics_first_error [OF reply this]
  show ?thesis
    by (intro conjI reply t p bad concl)
qed

text \<open>
  Claim C5, as amended. After a \<^verbatim>\<open>refreshTopics\<close> call that returns \<^verbatim>\<open>nil\<close> on a
  metadata response in which every leader id is the id of a broker of that same response,
  every topic of the response has its inner map in \<^verbatim>\<open>partitions\<close>, and every leader id
  of a partition record in it is a key of \<^verbatim>\<open>brokers\<close>.
\<close>

theorem refreshTopics_leaders_known:
  assumes "metadata_reply env topics bm w = Some ((g, None, response), bm1, w1)"
    and "refreshTopics env topics bm w = Some (None, bm', w')"
    and "\<forall>t \<in> set (m_topics response). \<forall>p \<in> set (t_partitions t).
           leader p \<in> bid ` set (m_brokers response)"
  shows "\<forall>t \<in> set (m_topics response).
           \<exists>id_map. partitions bm' (name t) = Some id_map \<and>
             (\<forall>(i, p) \<in> set id_map. leader p \<in> fst ` set (brokers bm'))"
proof
  fix t
  assume t: "t \<in> set (m_topics response)"
  let ?ts = "m_topics response"
  from refreshTopics_apply [OF assms(1)] assms(2)
  have ok: "fst (refreshTopics_topics ?ts (partitions bm1)) = None"
    and brs: "brokers bm' = refreshTopics_brokers (m_brokers response) (brokers bm1)"
    and parts: "partitions bm' = snd (refreshTopics_topics ?ts (partitions bm1))"
    by auto
  from ok have "find (\<lambda>c. c \<noteq> NO_ERROR) (error_codes ?ts) = None"
    by (simp add: refreshTopics_topics_error)
  then have all: "before_error ?ts = ?ts" by (rule before_error_all)
  from t have "latest name (name t) ?ts \<noteq> None" by (simp add: latest_None)
  then obtain u where u: "latest name (name t) ?ts = Some u" by blast
  then have mem: "u \<in> set ?ts" by (blast dest: latest_mem)
  let ?id_map = "snd (refreshTopics_partitions (t_partitions u) [])"
  from u all parts refreshTopics_topics_lookup [of ?ts "partitions bm1" "name t"]
  have entry: "partitions bm' (name t) = Some ?id_map" by simp
  have "leader p \<in> fst ` set (brokers bm')" if "(i, p) \<in> set ?id_map" for i p
  proof -
    from that refreshTopics_partitions_entries [of "t_partitions u" "[]"]
    have "p \<in> set (t_partitions u)" by auto
    with mem assms(3) have "leader p \<in> bid ` set (m_brokers response)" by blast
    with refreshTopics_brokers_keys [of "m_brokers response" "brokers bm1"] brs
    show ?thesis by auto
  qed
  with entry show "\<exists>id_map. partitions bm' (name t) = Some id_map \<and>
      (\<forall>(i, p) \<in> set id_map. leader p \<in> fst ` set (brokers bm'))"
    by blast
qed

theorem refreshTopics_leaders_known_witness:
  "metadata_reply env_fresh [] bm_cached w0 = Some ((True, None, md_t), bm_cached, w_refreshed) \<and>
   refreshTopics env_fresh [] bm_cached w0 = Some (None, bm_cached, w_refreshed) \<and>
   list_all (\<lambda>t. list_all (\<lambda>p. leader p \<in> bid ` set (m_brokers md_t)) (t_partitions t))
     (m_topics md_t) \<and>
   (\<exists>id_map. partitions bm_cached ''t'' = Some id_map \<and>
      list_all (\<lambda>(i, p). leader p \<in> fst ` set (brokers bm_cached)) id_map)"
proof -
  have reply: "metadata_reply env_fresh [] bm_cached w0
      = Some ((True, None, md_t), bm_cached, w_refreshed)"
    by (simp add: metadata_reply_def sendToAny.simps getDefault_def sendAndReceive_def
        env_fresh_def bm_cached_def w0_def w_refreshed_def)
  have run: "refreshTopics env_fresh [] bm_cached w0 = Some (None, bm_cached, w_refreshed)"
    by (simp add: refreshTopics_def sendToAny.simps getDefault_def sendAndReceive_def
        new_metadata_def env_fresh_def md_t_def bm_cached_def w0_def w_refreshed_def
        part0_def part1_def brokerA_def brokerB_def)
  have leaders: "list_all (\<lambda>t. list_all (\<lambda>p. leader p \<in> bid ` set (m_brokers md_t))
      (t_partitions t)) (m_topics md_t)"
    by (simp add: md_t_def part0_def part1_def brokerA_def brokerB_def)
  then have "\<forall>t \<in> set (m_topics md_t). \<forall>p \<in> set (t_partitions t).
      leader p \<in> bid ` set (m_brokers md_t)"
    by (simp add: list_all_iff)
  from refreshTopics_leaders_known [OF reply run this]
  have "\<forall>t \<in> set (m_topics md_t).
      \<exists>id_map. partitions bm_cached (name t) = Some id_map \<and>
        (\<forall>(i, p) \<in> set id_map. leader p \<in> fst ` set (brokers bm_cached))" .
  then have "\<exists>id_map. partitions bm_cached ''t'' = Some id_map \<and>
      list_all (\<lambda>(i, p). leader p \<in> fst ` set (brokers bm_cached)) id_map"
    by (simp add: md_t_def list_all_iff)
  with reply run leaders show ?thesis by simp
qed

text \<open>
  Claim C5, as stated, fails: the refresh stores what the response says. Here the
  response names broker 7 as the leader of partition 0 of \<open>t\<close> and lists broker 1
  only; the refresh returns \<^verbatim>\<open>nil\<close> and leaves a partition record whose leader is no
  key of \<^verbatim>\<open>brokers\<close>.
\<close>

theorem refreshTopics_unknown_leader:
  "refreshTopics env_orphan [] bm_boot w0 =
     Some (None,
       \<lparr>defaultBroker = Some bootstrap, brokers = [(1, brokerA)],
        partitions = [''t'' \<mapsto> [(0, part_orphan)]]\<rparr>,
       \<lparr>sent = [(bootstrap, MetadataSend [])], picks = 0, refreshes = [[]]\<rparr>) \<and>
   leader part_orphan = 7 \<and>
   map_of [(1 :: int32, brokerA)] 7 = None"
  by (simp add: refreshTopics_def sendToAny.simps getDefault_def sendAndReceive_def
      new_metadata_def env_orphan_def md_orphan_def bm_boot_def w0_def part_orphan_def
      brokerA_def)

text \<open>
  Claim C8. For a topic absent from the cache of a manager whose brokers are stored
  under their own ids, \<^verbatim>\<open>partitionsForTopic\<close> returns after exactly one refresh, of
  that topic; the manager, the sends and the refreshes it leaves are those the refresh
  left. It then returns the refresh's error, or \<open>UNKNOWN_TOPIC_OR_PARTITION\<close> when the
  topic is still absent, or else the partition ids of the topic's inner map in the
  refreshed cache: each id once, in the order of one iteration over the map, whichever
  that is.
\<close>

theorem partitionsForTopic_unknown_topic:
  assumes "brokers_keyed bm" and "partitions bm topic = None"
  shows "\<exists>e bm' w1 r w'.
           refreshTopic env topic bm w = Some (e, bm', w1) \<and>
           refreshes w1 = refreshes w @ [[topic]] \<and>
           partitionsForTopic env topic bm w = Some (r, bm', w') \<and>
           sent w' = sent w1 \<and> refreshes w' = refreshes w1 \<and>
           (case e of
              Some err \<Rightarrow> r = Inl err
            | None \<Rightarrow>
                (case partitions bm' topic of
                   None \<Rightarrow> r = Inl (KErr UNKNOWN_TOPIC_OR_PARTITION)
                 | Some id_map \<Rightarrow>
                     \<exists>ids. r = Inr ids \<and> distinct ids \<and> set ids = fst ` set id_map))"
proof -
  from refreshTopics_total [OF assms(1), of env "[topic]" w] obtain e bm' w1 where
    run: "refreshTopics env [topic] bm w = Some (e, bm', w1)"
    and log: "refreshes w1 = refreshes w @ [[topic]]"
    by blast
  from run have run': "refreshTopic env topic bm w = Some (e, bm', w1)"
    by (simp add: refreshTopic_def)
  show ?thesis
  proof (cases e)
    case (Some err)
    with run' assms(2) have "partitionsForTopic env topic bm w = Some (Inl err, bm', w1)"
      by (simp add: partitionsForTopic_def)
    with run' log Some show ?thesis by auto
  next
    case None
    show ?thesis
    proof (cases "partitions bm' topic")
      case absent: None
      with None run' assms(2)
      have "partitionsForTopic env topic bm w
          = Some (Inl (KErr UNKNOWN_TOPIC_OR_PARTITION), bm', w1)"
        by (simp add: partitionsForTopic_def)
      with run' log None absent show ?thesis by auto
    next
      case (Some id_map)
      let ?ids = "range_order (rangeOrder env (picks w1)) (map fst id_map)"
      let ?w' = "w1\<lparr>picks := Suc (picks w1)\<rparr>"
      from refreshTopics_entries [OF assms(1) run Some] assms(2)
      have "distinct (map fst id_map)" by simp
      then have ids: "distinct ?ids" "set ?ids = fst ` set id_map"
        by (simp_all add: distinct_range_order set_range_order)
      from None Some run' assms(2)
      have "partitionsForTopic env topic bm w = Some (Inr ?ids, bm', ?w')"
        by (simp add: partitionsForTopic_def partitionsForTopic_ids_def)
      moreover have "sent ?w' = sent w1" "refreshes ?w' = refreshes w1" by simp_all
      moreover from None Some ids
      have "case e of
              Some err \<Rightarrow> Inr ?ids = Inl err
            | None \<Rightarrow>
                (case partitions bm' topic of
                   None \<Rightarrow> Inr ?ids = Inl (KErr UNKNOWN_TOPIC_OR_PARTITION)
                 | Some id_map \<Rightarrow>
                     \<exists>ids. Inr ?ids = Inr ids \<and> distinct ids \<and> set ids = fst ` set id_map)"
        by simp
      ultimately show ?thesis using run' log by blast
    qed
  qed
qed

theorem partitionsForTopic_unknown_topic_witness:
  "brokers_keyed bm_boot \<and> partitions bm_boot ''t'' = None \<and>
   partitionsForTopic env_reversed ''t'' bm_boot w0 =
     Some (Inr [1, 0],
       \<lparr>defaultBroker = Some bootstrap, brokers = [(1, brokerA), (2, brokerB)],
        partitions = [''t'' \<mapsto> [(0, part0), (1, part1)]]\<rparr>,
       \<lparr>sent = [(bootstrap, MetadataSend [''t''])], picks = 1, refreshes = [[''t'']]\<rparr>) \<and>
   partitionsForTopic env_fresh ''t'' bm_boot w0 =
     Some (Inr [0, 1],
       \<lparr>defaultBroker = Some bootstrap, brokers = [(1, brokerA), (2, brokerB)],
        partitions = [''t'' \<mapsto> [(0, part0), (1, part1)]]\<rparr>,
       \<lparr>sent = [(bootstrap, MetadataSend [''t''])], picks = 1, refreshes = [[''t'']]\<rparr>) \<and>
   (\<exists>e bm' w1 r w'.
      refreshTopic env_reversed ''t'' bm_boot w0 = Some (e, bm', w1) \<and>
      refreshes w1 = refreshes w0 @ [[''t'']] \<and>
      partitionsForTopic env_reversed ''t'' bm_boot w0 = Some (r, bm', w') \<and>
      sent w' = sent w1 \<and> refreshes w' = refreshes w1 \<and>
      (case e of
         Some err \<Rightarrow> r = Inl err
       | None \<Rightarrow>
           (case partitions bm' ''t'' of
              None \<Rightarrow> r = Inl (KErr UNKNOWN_TOPIC_OR_PARTITION)
            | Some id_map \<Rightarrow>
                \<exists>ids. r = Inr ids \<and> distinct ids \<and> set ids = fst ` set id_map)))"
proof -
  have keyed: "brokers_keyed bm_boot" by (simp add: brokers_keyed_def bm_boot_def)
  have absent: "partitions bm_boot ''t'' = None" by (simp add: bm_boot_def)
  have reversed: "partitionsForTopic env_reversed ''t'' bm_boot w0 =
     Some (Inr [1, 0],
       \<lparr>defaultBroker = Some bootstrap, brokers = [(1, brokerA), (2, brokerB)],
        partitions = [''t'' \<mapsto> [(0, part0), (1, part1)]]\<rparr>,
       \<lparr>sent = [(bootstrap, MetadataSend [''t''])], picks = 1, refreshes = [[''t'']]\<rparr>)"
    by (simp add: partitionsForTopic_def partitionsForTopic_ids_def refreshTopic_def
        refreshTopics_def sendToAny.simps getDefault_def sendAndReceive_def new_metadata_def
        env_reversed_def md_t_def bm_boot_def w0_def part0_def part1_def brokerA_def
        brokerB_def)
  have inserted: "partitionsForTopic env_fresh ''t'' bm_boot w0 =
     Some (Inr [0, 1],
       \<lparr>defaultBroker = Some bootstrap, brokers = [(1, brokerA), (2, brokerB)],
        partitions = [''t'' \<mapsto> [(0, part0), (1, part1)]]\<rparr>,
       \<lparr>sent = [(bootstrap, MetadataSend [''t''])], picks = 1, refreshes = [[''t'']]\<rparr>)"
    by (simp add: partitionsForTopic_def partitionsForTopic_ids_def refreshTopic_def
        refreshTopics_def sendToAny.simps getDefault_def sendAndReceive_def new_metadata_def
        env_fresh_def md_t_def bm_boot_def w0_def part0_def part1_def brokerA_def
        brokerB_def)
  note concl = partitionsForTopic_unknown_topic [OF keyed absent, of env_reversed w0]
  show ?thesis by (intro conjI keyed absent reversed inserted concl)
qed

end
